theory Spec2Isabelle
  imports Complex_Main "HOL-Library.List_Lexorder" "HOL-Library.Product_Lexorder"
    "HOL-Library.Multiset"
begin

section \<open>Python values used by dsd.py\<close>

text \<open>
  A Python \<open>str\<close> is a sequence of Unicode code points; it is modelled as a list of
  natural numbers, so that \<open>str.strip()\<close> and the comparison of strings (by code
  point, lexicographically) are the ones of Python. \<open>ustr\<close> reads an ASCII literal.
\<close>

type_synonym pystr = "nat list"

definition ustr :: "string \<Rightarrow> pystr" where
  "ustr s = map of_char s"

text \<open>The code points for which \<open>str.isspace()\<close> holds; \<open>str.strip()\<close> removes them
  at both ends.\<close>

definition isspace :: "nat \<Rightarrow> bool" where
  "isspace c \<longleftrightarrow>
     (9 \<le> c \<and> c \<le> 13) \<or> (28 \<le> c \<and> c \<le> 32) \<or> c = 0x85 \<or> c = 0xA0 \<or> c = 0x1680 \<or>
     (0x2000 \<le> c \<and> c \<le> 0x200A) \<or> c = 0x2028 \<or> c = 0x2029 \<or> c = 0x202F \<or>
     c = 0x205F \<or> c = 0x3000"

definition strip_by :: "(nat \<Rightarrow> bool) \<Rightarrow> pystr \<Rightarrow> pystr" where
  "strip_by p s = rev (dropWhile p (rev (dropWhile p s)))"

definition strip :: "pystr \<Rightarrow> pystr" where
  "strip s = strip_by isspace s"

text \<open>
  A float64 is modelled as an exact real number or NaN (the missing value of pandas).
  Rounding to binary64, overflow, the two infinities and the sign of zero are outside
  the model.
\<close>

datatype float64 = Fin real | NaN

text \<open>A cell of a DataFrame as \<open>read_csv\<close> makes it: a string, an int64, a float64
  (NaN where the field is empty) or a bool.\<close>

datatype cell = S pystr | I int | F float64 | B bool

text \<open>A DataFrame: its columns in order, each a label and its cells. The index is the
  position of the row (\<open>read_csv\<close> gives a RangeIndex, and the script resets the
  index after sorting).\<close>

type_synonym dataframe = "(pystr \<times> cell list) list"

text \<open>What stops the script. \<open>UnmodelledFloat\<close> is not an exception of the program:
  the model returns it where \<open>float()\<close> is given a string outside the fragment of its
  grammar that \<open>py_float\<close> covers. \<open>DuplicateLabel\<close> stands for the exception of an
  operation that needs one column and finds several with the label.\<close>

datatype error =
    AttributeError
  | ValueError_float pystr
  | ValueError_arg
  | MissingColumns "pystr list"
  | KeyError pystr
  | TypeError
  | ZeroDivisionError
  | DuplicateLabel pystr
  | UnmodelledFloat pystr

definition bind_err :: "error + 'a \<Rightarrow> ('a \<Rightarrow> error + 'b) \<Rightarrow> error + 'b" where
  "bind_err m f = (case m of Inl e \<Rightarrow> Inl e | Inr x \<Rightarrow> f x)"

subsection \<open>\<open>str()\<close> of a cell\<close>

fun str_nat :: "nat \<Rightarrow> pystr" where
  "str_nat n = (if n < 10 then [48 + n] else str_nat (n div 10) @ [48 + n mod 10])"

declare str_nat.simps [simp del]

definition str_int :: "int \<Rightarrow> pystr" where
  "str_int i = (if i < 0 then 45 # str_nat (nat (- i)) else str_nat (nat i))"

text \<open>\<open>repr\<close> of a finite float is a parameter \<open>fstr\<close> of the model (the shortest
  decimal string that reads back as the same float); NaN prints as \<open>nan\<close>.\<close>

definition float_str :: "(real \<Rightarrow> pystr) \<Rightarrow> float64 \<Rightarrow> pystr" where
  "float_str fstr x = (case x of Fin r \<Rightarrow> fstr r | NaN \<Rightarrow> ustr ''nan'')"

text \<open>\<open>Series.astype(str)\<close>, one cell.\<close>

definition astype_str :: "(real \<Rightarrow> pystr) \<Rightarrow> cell \<Rightarrow> pystr" where
  "astype_str fstr c =
     (case c of
        S s \<Rightarrow> s
      | I i \<Rightarrow> str_int i
      | F x \<Rightarrow> float_str fstr x
      | B b \<Rightarrow> (if b then ustr ''True'' else ustr ''False''))"

subsection \<open>\<open>float()\<close> of a string\<close>

text \<open>
  The grammar of \<open>float()\<close>, on ASCII strings:
  \<^verbatim>\<open>
  digitpart   ::= digit (["_"] digit)*
  number      ::= [digitpart] "." digitpart | digitpart ["."]
  exponent    ::= ("e" | "E") [sign] digitpart
  floatnumber ::= number [exponent]
  floatvalue  ::= [sign] (floatnumber | infinity | nan)
  \<close>
  surrounded by white space. The value of a floatnumber is the decimal it denotes.
\<close>

datatype parsed = Parsed float64 | Unparseable | Unmodelled

definition is_digit :: "nat \<Rightarrow> bool" where
  "is_digit c \<longleftrightarrow> 48 \<le> c \<and> c \<le> 57"

fun digitpart :: "pystr \<Rightarrow> nat list option" where
  "digitpart [] = None"
| "digitpart [c] = (if is_digit c then Some [c - 48] else None)"
| "digitpart (c # d # cs) =
     (if \<not> is_digit c then None
      else if d = 95 then
        (case digitpart cs of None \<Rightarrow> None | Some ds \<Rightarrow> Some ((c - 48) # ds))
      else
        (case digitpart (d # cs) of None \<Rightarrow> None | Some ds \<Rightarrow> Some ((c - 48) # ds)))"

definition digits_val :: "nat list \<Rightarrow> nat" where
  "digits_val ds = foldl (\<lambda>a d. 10 * a + d) 0 ds"

text \<open>The digits of a number and how many of them follow the point.\<close>

definition number :: "pystr \<Rightarrow> (nat list \<times> nat) option" where
  "number s =
     (let ip = takeWhile (\<lambda>c. c \<noteq> 46) s; rest = dropWhile (\<lambda>c. c \<noteq> 46) s
      in case rest of
           [] \<Rightarrow> (case digitpart ip of None \<Rightarrow> None | Some ds \<Rightarrow> Some (ds, 0))
         | _ # fp \<Rightarrow>
             if fp = [] then
               (case digitpart ip of None \<Rightarrow> None | Some ds \<Rightarrow> Some (ds, 0))
             else
               (case digitpart fp of
                  None \<Rightarrow> None
                | Some fs \<Rightarrow>
                    if ip = [] then Some (fs, length fs)
                    else (case digitpart ip of
                            None \<Rightarrow> None
                          | Some ds \<Rightarrow> Some (ds @ fs, length fs))))"

definition exponent :: "pystr \<Rightarrow> int option" where
  "exponent s =
     (case s of
        [] \<Rightarrow> None
      | c # cs \<Rightarrow>
          if c = 45 then map_option (\<lambda>ds. - int (digits_val ds)) (digitpart cs)
          else if c = 43 then map_option (\<lambda>ds. int (digits_val ds)) (digitpart cs)
          else map_option (\<lambda>ds. int (digits_val ds)) (digitpart s))"

definition is_e :: "nat \<Rightarrow> bool" where
  "is_e c \<longleftrightarrow> c = 101 \<or> c = 69"

definition scale10 :: "nat \<Rightarrow> int \<Rightarrow> real" where
  "scale10 m e = (if 0 \<le> e then real m * 10 ^ nat e else real m / 10 ^ nat (- e))"

definition floatnumber :: "pystr \<Rightarrow> real option" where
  "floatnumber s =
     (let mant = takeWhile (\<lambda>c. \<not> is_e c) s; rest = dropWhile (\<lambda>c. \<not> is_e c) s
      in case number mant of
           None \<Rightarrow> None
         | Some (ds, k) \<Rightarrow>
             (case rest of
                [] \<Rightarrow> Some (scale10 (digits_val ds) (- int k))
              | _ # ex \<Rightarrow>
                  (case exponent ex of
                     None \<Rightarrow> None
                   | Some e \<Rightarrow> Some (scale10 (digits_val ds) (e - int k)))))"

definition lower :: "nat \<Rightarrow> nat" where
  "lower c = (if 65 \<le> c \<and> c \<le> 90 then c + 32 else c)"

definition absfloatvalue :: "bool \<Rightarrow> pystr \<Rightarrow> parsed" where
  "absfloatvalue neg s =
     (if map lower s = ustr ''nan'' then Parsed NaN
      else if map lower s = ustr ''inf'' \<or> map lower s = ustr ''infinity'' then Unmodelled
      else case floatnumber s of
             None \<Rightarrow> Unparseable
           | Some r \<Rightarrow> Parsed (Fin (if neg then - r else r)))"

text \<open>
  White space for \<open>float()\<close>: the ASCII characters of C's \<open>isspace\<close> and the
  non-ASCII code points of \<open>str.isspace()\<close>; the separators U+001C to U+001F are not
  removed. A string that keeps a non-ASCII code point after that may hold Unicode
  decimal digits, which \<open>float()\<close> reads: the model does not decide it.
\<close>

definition float_space :: "nat \<Rightarrow> bool" where
  "float_space c \<longleftrightarrow> isspace c \<and> \<not> (28 \<le> c \<and> c \<le> 31)"

definition py_float :: "pystr \<Rightarrow> parsed" where
  "py_float s0 =
     (let s = strip_by float_space s0
      in if list_ex (\<lambda>c. 128 \<le> c) s then Unmodelled
         else case s of
                [] \<Rightarrow> Unparseable
              | c # cs \<Rightarrow>
                  if c = 45 then absfloatvalue True cs
                  else if c = 43 then absfloatvalue False cs
                  else absfloatvalue False s)"

section \<open>Helpers of dsd.py\<close>

definition col_month :: pystr where
  "col_month = [0xC6D4]"

definition col_sales :: pystr where
  "col_sales = [0xB9E4, 0xCD9C, 0xC561]"

definition col_prev :: pystr where
  "col_prev = [0xC804, 0xB144, 0xB3D9, 0xC6D4]"

definition col_growth :: pystr where
  "col_growth = [0xC99D, 0xAC10, 0xB960]"

text \<open>The dictionary \<open>COLUMN_MAP\<close>, in the order of the source.\<close>

definition COLUMN_MAP :: "(pystr \<times> pystr) list" where
  "COLUMN_MAP =
     [(col_month, col_month), (ustr ''month'', col_month), (ustr ''Month'', col_month),
      (col_sales, col_sales), ([0xB9E4, 0xCD9C], col_sales), (ustr ''sales'', col_sales),
      (ustr ''Sales'', col_sales),
      (col_prev, col_prev), ([0xC804, 0xB144], col_prev), (ustr ''prev'', col_prev),
      ([0xC804, 0xB144, 0x5F, 0xB3D9, 0xC6D4], col_prev),
      (col_growth, col_growth), ([0xC99D, 0xAC10, 0x28, 0x25, 0x29], col_growth),
      ([0xC131, 0xC7A5, 0xB960], col_growth), (ustr ''growth'', col_growth)]"

definition dict_get :: "('k \<times> 'v) list \<Rightarrow> 'k \<Rightarrow> 'v \<Rightarrow> 'v" where
  "dict_get m k d = (case map_of m k of None \<Rightarrow> d | Some v \<Rightarrow> v)"

subsection \<open>\<open>normalize_columns\<close>\<close>

text \<open>The loop that fills \<open>cols\<close>, one label: \<open>COLUMN_MAP.get(key, key)\<close> with
  \<open>key = str(c).strip()\<close>.\<close>

definition new_label :: "pystr \<Rightarrow> pystr" where
  "new_label c = (let key = strip c in dict_get COLUMN_MAP key key)"

text \<open>\<open>df.rename(columns=cols).copy()\<close>.\<close>

definition rename_columns :: "dataframe \<Rightarrow> dataframe" where
  "rename_columns df = map (\<lambda>(c, cells). (new_label c, cells)) df"

definition columns :: "dataframe \<Rightarrow> pystr list" where
  "columns df = map fst df"

text \<open>\<open>.str.replace(',', '', regex=False).str.replace(' ', '', regex=False)\<close>.\<close>

definition clean :: "pystr \<Rightarrow> pystr" where
  "clean s = filter (\<lambda>c. c \<noteq> 32) (filter (\<lambda>c. c \<noteq> 44) s)"

text \<open>One cell through \<open>.astype(str)\<close>, the two replacements, \<open>.replace('', np.nan)\<close>
  and \<open>.astype(float)\<close>. The ValueError of \<open>float()\<close> quotes the string it was given.\<close>

definition coerce_cell :: "(real \<Rightarrow> pystr) \<Rightarrow> cell \<Rightarrow> error + float64" where
  "coerce_cell fstr c =
     (let s = clean (astype_str fstr c)
      in if s = [] then Inr NaN
         else case py_float s of
                Parsed x \<Rightarrow> Inr x
              | Unparseable \<Rightarrow> Inl (ValueError_float s)
              | Unmodelled \<Rightarrow> Inl (UnmodelledFloat s))"

text \<open>The whole column: the conversion raises at the first cell that does not parse.\<close>

fun coerce_cells :: "(real \<Rightarrow> pystr) \<Rightarrow> cell list \<Rightarrow> error + cell list" where
  "coerce_cells fstr [] = Inr []"
| "coerce_cells fstr (c # cs) =
     (case coerce_cell fstr c of
        Inl e \<Rightarrow> Inl e
      | Inr x \<Rightarrow> (case coerce_cells fstr cs of Inl e \<Rightarrow> Inl e | Inr xs \<Rightarrow> Inr (F x # xs)))"

definition count_col :: "dataframe \<Rightarrow> pystr \<Rightarrow> nat" where
  "count_col df c = length (filter (\<lambda>p. fst p = c) df)"

text \<open>\<open>out[col] = values\<close> for a label that is there once: the column keeps its place.\<close>

definition set_col :: "dataframe \<Rightarrow> pystr \<Rightarrow> cell list \<Rightarrow> dataframe" where
  "set_col df col xs = map (\<lambda>(h, cs). if h = col then (h, xs) else (h, cs)) df"

text \<open>
  The body of the loop over the numeric columns. Where the renaming has given two columns
  the label \<open>col\<close>, \<open>out[col]\<close> is a DataFrame, which has no \<open>.str\<close>: AttributeError.
\<close>

definition to_numeric :: "(real \<Rightarrow> pystr) \<Rightarrow> pystr \<Rightarrow> dataframe \<Rightarrow> error + dataframe" where
  "to_numeric fstr col out =
     (case map_of out col of
        None \<Rightarrow> Inr out
      | Some cs \<Rightarrow>
          if 1 < count_col out col then Inl AttributeError
          else (case coerce_cells fstr cs of
                  Inl e \<Rightarrow> Inl e
                | Inr xs \<Rightarrow> Inr (set_col out col xs)))"

fun numeric_loop :: "(real \<Rightarrow> pystr) \<Rightarrow> pystr list \<Rightarrow> dataframe \<Rightarrow> error + dataframe" where
  "numeric_loop fstr [] out = Inr out"
| "numeric_loop fstr (col # cols) out =
     (case to_numeric fstr col out of
        Inl e \<Rightarrow> Inl e
      | Inr out' \<Rightarrow> numeric_loop fstr cols out')"

text \<open>\<open>out['\<dots>'] = out['\<dots>'].astype(str).str.strip()\<close> for the month column.\<close>

definition string_month :: "(real \<Rightarrow> pystr) \<Rightarrow> dataframe \<Rightarrow> error + dataframe" where
  "string_month fstr out =
     (case map_of out col_month of
        None \<Rightarrow> Inr out
      | Some cs \<Rightarrow>
          if 1 < count_col out col_month then Inl AttributeError
          else Inr (set_col out col_month (map (\<lambda>c. S (strip (astype_str fstr c))) cs)))"

definition normalize_columns :: "(real \<Rightarrow> pystr) \<Rightarrow> dataframe \<Rightarrow> error + dataframe" where
  "normalize_columns fstr df =
     (let out = rename_columns df
      in case numeric_loop fstr [col_sales, col_prev, col_growth] out of
           Inl e \<Rightarrow> Inl e
         | Inr out' \<Rightarrow> string_month fstr out')"

subsection \<open>\<open>require_columns\<close>\<close>

definition must :: "pystr list" where
  "must = [col_month, col_sales, col_prev, col_growth]"

text \<open>\<open>st.error\<close> shows the missing labels and \<open>st.stop()\<close> ends the run: nothing after
  the call is executed.\<close>

definition require_columns :: "dataframe \<Rightarrow> error + unit" where
  "require_columns df =
     (let missing = filter (\<lambda>c. c \<notin> set (columns df)) must
      in if missing \<noteq> [] then Inl (MissingColumns missing) else Inr ())"

section \<open>The script\<close>

subsection \<open>Columns of the normalized table\<close>

fun cell_str :: "cell \<Rightarrow> pystr option" where
  "cell_str (S s) = Some s"
| "cell_str _ = None"

fun cell_float :: "cell \<Rightarrow> float64 option" where
  "cell_float (F x) = Some x"
| "cell_float _ = None"

text \<open>\<open>df[col]\<close> where the script needs a column of strings, or a float64 column.\<close>

definition getitem :: "dataframe \<Rightarrow> pystr \<Rightarrow> error + cell list" where
  "getitem df col =
     (case map_of df col of
        None \<Rightarrow> Inl (KeyError col)
      | Some cs \<Rightarrow> if 1 < count_col df col then Inl (DuplicateLabel col) else Inr cs)"

definition str_col :: "dataframe \<Rightarrow> pystr \<Rightarrow> error + pystr list" where
  "str_col df col =
     bind_err (getitem df col) (\<lambda>cs.
       case those (map cell_str cs) of None \<Rightarrow> Inl TypeError | Some ss \<Rightarrow> Inr ss)"

definition float_col :: "dataframe \<Rightarrow> pystr \<Rightarrow> error + float64 list" where
  "float_col df col =
     bind_err (getitem df col) (\<lambda>cs.
       case those (map cell_float cs) of None \<Rightarrow> Inl TypeError | Some xs \<Rightarrow> Inr xs)"

subsection \<open>\<open>sort_values\<close>\<close>

text \<open>
  The positions of the rows in ascending order of their keys. pandas sorts with
  quicksort, which promises no order among equal keys; the model keeps them in their
  original order.
\<close>

definition argsort :: "'k::linorder list \<Rightarrow> nat list" where
  "argsort keys = map snd (sort_key fst (zip keys [0..<length keys]))"

definition take_rows :: "nat list \<Rightarrow> dataframe \<Rightarrow> dataframe" where
  "take_rows idx df = map (\<lambda>(h, cs). (h, map (\<lambda>i. cs ! i) idx)) df"

text \<open>\<open>df.sort_values(col)\<close> on a column of strings: Python compares strings by code
  point, lexicographically.\<close>

definition sort_values_str :: "pystr \<Rightarrow> dataframe \<Rightarrow> error + dataframe" where
  "sort_values_str col df =
     bind_err (str_col df col) (\<lambda>keys. Inr (take_rows (argsort keys) df))"

text \<open>On a float64 column: ascending, NaN last.\<close>

definition nan_last :: "float64 \<Rightarrow> nat \<times> real" where
  "nan_last x = (case x of Fin r \<Rightarrow> (0, r) | NaN \<Rightarrow> (1, 0))"

definition sort_values_float :: "pystr \<Rightarrow> dataframe \<Rightarrow> error + dataframe" where
  "sort_values_float col df =
     bind_err (float_col df col) (\<lambda>keys. Inr (take_rows (argsort (map nan_last keys)) df))"

subsection \<open>Reductions of a float64 column\<close>

text \<open>\<open>Series.sum()\<close> (skipna): the missing values are replaced by 0 and the values
  added.\<close>

definition fillna0 :: "float64 \<Rightarrow> real" where
  "fillna0 x = (case x of Fin r \<Rightarrow> r | NaN \<Rightarrow> 0)"

definition notna :: "float64 \<Rightarrow> bool" where
  "notna x = (case x of Fin r \<Rightarrow> True | NaN \<Rightarrow> False)"

definition col_sum :: "float64 list \<Rightarrow> float64" where
  "col_sum xs = Fin (sum_list (map fillna0 xs))"

text \<open>\<open>Series.mean()\<close> (skipna): that sum by the number of values that are not missing,
  NaN where there is none.\<close>

definition col_mean :: "float64 list \<Rightarrow> float64" where
  "col_mean xs =
     (let count = length (filter notna xs)
      in if 0 < count then Fin (sum_list (map fillna0 xs) / real count) else NaN)"

text \<open>\<open>Series.idxmax()\<close> (skipna): the position of the first occurrence of the largest
  value that is not missing; ValueError where there is none.\<close>

fun argmax_loop :: "float64 list \<Rightarrow> nat \<Rightarrow> (nat \<times> real) option \<Rightarrow> (nat \<times> real) option" where
  "argmax_loop [] i best = best"
| "argmax_loop (NaN # xs) i best = argmax_loop xs (Suc i) best"
| "argmax_loop (Fin r # xs) i best =
     argmax_loop xs (Suc i)
       (case best of
          None \<Rightarrow> Some (i, r)
        | Some (j, m) \<Rightarrow> if m < r then Some (i, r) else Some (j, m))"

definition idxmax :: "float64 list \<Rightarrow> error + nat" where
  "idxmax xs = (case argmax_loop xs 0 None of None \<Rightarrow> Inl ValueError_arg | Some (i, m) \<Rightarrow> Inr i)"

fun argmin_loop :: "float64 list \<Rightarrow> nat \<Rightarrow> (nat \<times> real) option \<Rightarrow> (nat \<times> real) option" where
  "argmin_loop [] i best = best"
| "argmin_loop (NaN # xs) i best = argmin_loop xs (Suc i) best"
| "argmin_loop (Fin r # xs) i best =
     argmin_loop xs (Suc i)
       (case best of
          None \<Rightarrow> Some (i, r)
        | Some (j, m) \<Rightarrow> if r < m then Some (i, r) else Some (j, m))"

definition idxmin :: "float64 list \<Rightarrow> error + nat" where
  "idxmin xs = (case argmin_loop xs 0 None of None \<Rightarrow> Inl ValueError_arg | Some (i, m) \<Rightarrow> Inr i)"

subsection \<open>Arithmetic of Python floats\<close>

definition fsub :: "float64 \<Rightarrow> float64 \<Rightarrow> float64" where
  "fsub a b = (case (a, b) of (Fin x, Fin y) \<Rightarrow> Fin (x - y) | _ \<Rightarrow> NaN)"

definition fmul :: "float64 \<Rightarrow> float64 \<Rightarrow> float64" where
  "fmul a b = (case (a, b) of (Fin x, Fin y) \<Rightarrow> Fin (x * y) | _ \<Rightarrow> NaN)"

text \<open>\<open>a / b\<close> raises ZeroDivisionError where \<open>b\<close> is zero.\<close>

definition py_div :: "float64 \<Rightarrow> float64 \<Rightarrow> error + float64" where
  "py_div a b =
     (case b of
        NaN \<Rightarrow> Inr NaN
      | Fin y \<Rightarrow> if y = 0 then Inl ZeroDivisionError
                 else (case a of NaN \<Rightarrow> Inr NaN | Fin x \<Rightarrow> Inr (Fin (x / y))))"

text \<open>The truth value of a float: false for zero only.\<close>

definition py_truth :: "float64 \<Rightarrow> bool" where
  "py_truth a = (case a of Fin x \<Rightarrow> x \<noteq> 0 | NaN \<Rightarrow> True)"

text \<open>The expression
  \<^verbatim>\<open>((total - last_year_total) / last_year_total * 100) if last_year_total else 0.0\<close>
  of \<open>make_indicator\<close>, which the script repeats for \<open>growth_pct\<close>.\<close>

definition growth :: "float64 \<Rightarrow> float64 \<Rightarrow> error + float64" where
  "growth total' last_year_total =
     (if py_truth last_year_total then
        bind_err (py_div (fsub total' last_year_total) last_year_total) (\<lambda>q.
          Inr (fmul q (Fin 100)))
      else Inr (Fin 0))"

subsection \<open>\<open>make_indicator\<close>\<close>

record indicator =
  ind_value :: float64
  ind_reference :: float64
  ind_growth :: float64

definition make_indicator :: "float64 \<Rightarrow> float64 \<Rightarrow> error + indicator" where
  "make_indicator total' last_year_total =
     bind_err (growth total' last_year_total) (\<lambda>g.
       Inr \<lparr>ind_value = total', ind_reference = last_year_total, ind_growth = g\<rparr>)"

subsection \<open>\<open>hbar_diff\<close>\<close>

definition col_diff :: pystr where
  "col_diff = [0xC804, 0xB144, 0xB300, 0xBE44, 0x5F, 0xC99D, 0xAC10, 0xC561]"

text \<open>\<open>df.assign(col=values)\<close>: a new last column, or new values for the column of
  that label.\<close>

definition assign :: "dataframe \<Rightarrow> pystr \<Rightarrow> cell list \<Rightarrow> dataframe" where
  "assign df col xs = (if col \<in> set (columns df) then set_col df col xs else df @ [(col, xs)])"

text \<open>The two colours of the bars: \<open>rgba(255,176,32,0.95)\<close> and
  \<open>rgba(200,210,225,0.7)\<close>.\<close>

datatype colour = Highlight | Plain

record hbar =
  bar_x :: "float64 list"
  bar_y :: "pystr list"
  bar_colours :: "colour list"

text \<open>\<open>tmp\<close>: the table with the column of differences, sorted by it.\<close>

definition hbar_tmp :: "dataframe \<Rightarrow> error + dataframe" where
  "hbar_tmp df =
     bind_err (float_col df col_sales) (\<lambda>sales.
     bind_err (float_col df col_prev) (\<lambda>prev.
       sort_values_float col_diff (assign df col_diff (map F (map2 fsub sales prev)))))"

text \<open>\<open>tmp.tail(3)\<close> and \<open>tmp.head(3)\<close> of a column.\<close>

definition tail3 :: "'a list \<Rightarrow> 'a list" where
  "tail3 xs = drop (length xs - 3) xs"

definition head3 :: "'a list \<Rightarrow> 'a list" where
  "head3 xs = take 3 xs"

text \<open>The sets \<open>top3\<close> and \<open>bottom3\<close> of month labels, from the month column of
  \<open>tmp\<close>, and the colour of each bar.\<close>

definition top3 :: "pystr list \<Rightarrow> pystr set" where
  "top3 months = set (tail3 months)"

definition bottom3 :: "pystr list \<Rightarrow> pystr set" where
  "bottom3 months = set (head3 months)"

definition bar_colour :: "pystr list \<Rightarrow> pystr \<Rightarrow> colour" where
  "bar_colour months m = (if m \<in> top3 months \<or> m \<in> bottom3 months then Highlight else Plain)"

definition hbar_diff :: "dataframe \<Rightarrow> error + hbar" where
  "hbar_diff df =
     bind_err (hbar_tmp df) (\<lambda>tmp.
     bind_err (str_col tmp col_month) (\<lambda>months.
     bind_err (float_col tmp col_diff) (\<lambda>diffs.
       Inr \<lparr>bar_x = diffs, bar_y = months, bar_colours = map (bar_colour months) months\<rparr>)))"

subsection \<open>The run of the script on an uploaded table\<close>

text \<open>
  What a run that reaches the end has computed: the sorted table, the numbers of the
  top row and the two figures that depend on derived values. \<open>line_sales\<close> and
  \<open>bar_growth\<close> only hand columns of the table to the charting library.
\<close>

record dashboard =
  table :: dataframe
  total_sales :: float64
  last_year_sales :: float64
  avg_sales :: float64
  max_idx :: nat
  min_idx :: nat
  growth_pct :: float64
  fig_indicator :: indicator
  fig_diff :: hbar

definition run :: "(real \<Rightarrow> pystr) \<Rightarrow> dataframe \<Rightarrow> error + dashboard" where
  "run fstr uploaded =
     bind_err (normalize_columns fstr uploaded) (\<lambda>df0.
     bind_err (require_columns df0) (\<lambda>_.
     bind_err (sort_values_str col_month df0) (\<lambda>df.
     bind_err (float_col df col_sales) (\<lambda>sales.
     bind_err (float_col df col_prev) (\<lambda>prev.
     bind_err (idxmax sales) (\<lambda>imax.
     bind_err (idxmin sales) (\<lambda>imin.
     bind_err (growth (col_sum sales) (col_sum prev)) (\<lambda>g.
     bind_err (make_indicator (col_sum sales) (col_sum prev)) (\<lambda>fig1.
     bind_err (hbar_diff df) (\<lambda>fig4.
       Inr \<lparr>table = df,
            total_sales = col_sum sales,
            last_year_sales = col_sum prev,
            avg_sales = col_mean sales,
            max_idx = imax,
            min_idx = imin,
            growth_pct = g,
            fig_indicator = fig1,
            fig_diff = fig4\<rparr>))))))))))"

section \<open>Notions of the specification\<close>




section \<open>An uploaded table\<close>

text \<open>\<open>repr\<close> of a float with an integral value below \<open>1e16\<close>: \<open>1200.0\<close>.\<close>

definition repr_int :: "real \<Rightarrow> pystr" where
  "repr_int r = str_int \<lfloor>r\<rfloor> @ ustr ''.0''"

definition example_upload :: dataframe where
  "example_upload =
     [(ustr '' Month'', [S (ustr ''2023-01''), S (ustr ''2023-03''), S (ustr ''2023-02'')]),
      (ustr ''sales'', [S (ustr ''1,200''), S (ustr ''300''), S (ustr ''1,200 '')]),
      (ustr ''prev'', [F (Fin 90), F NaN, F (Fin 180)]),
      (ustr ''growth'', [I 12, I 5, I 3]),
      (ustr ''note '', [S (ustr ''a, b''), F NaN, F NaN])]"

definition example_normalized :: dataframe where
  "example_normalized =
     [(col_month, [S (ustr ''2023-01''), S (ustr ''2023-03''), S (ustr ''2023-02'')]),
      (col_sales, [F (Fin 1200), F (Fin 300), F (Fin 1200)]),
      (col_prev, [F (Fin 90), F NaN, F (Fin 180)]),
      (col_growth, [F (Fin 12), F (Fin 5), F (Fin 3)]),
      (ustr ''note'', [S (ustr ''a, b''), F NaN, F NaN])]"

definition example_table :: dataframe where
  "example_table =
     [(col_month, [S (ustr ''2023-01''), S (ustr ''2023-02''), S (ustr ''2023-03'')]),
      (col_sales, [F (Fin 1200), F (Fin 1200), F (Fin 300)]),
      (col_prev, [F (Fin 90), F (Fin 180), F NaN]),
      (col_growth, [F (Fin 12), F (Fin 3), F (Fin 5)]),
      (ustr ''note'', [S (ustr ''a, b''), F NaN, F NaN])]"

definition example_fig_diff :: hbar where
  "example_fig_diff =
     \<lparr>bar_x = [Fin 1020, Fin 1110, NaN],
      bar_y = [ustr ''2023-02'', ustr ''2023-01'', ustr ''2023-03''],
      bar_colours = [Highlight, Highlight, Highlight]\<rparr>"

definition example_dashboard :: dashboard where
  "example_dashboard =
     \<lparr>table = example_table,
      total_sales = Fin 2700,
      last_year_sales = Fin 270,
      avg_sales = Fin 900,
      max_idx = 0,
      min_idx = 2,
      growth_pct = Fin 900,
      fig_indicator = \<lparr>ind_value = Fin 2700, ind_reference = Fin 270, ind_growth = Fin 900\<rparr>,
      fig_diff = example_fig_diff\<rparr>"

text \<open>A table without a column for the growth rate.\<close>

definition example_no_growth :: dataframe where
  "example_no_growth =
     [(ustr ''month'', [S (ustr ''2023-01'')]),
      (ustr ''sales'', [I 100]),
      (ustr ''prev'', [I 90])]"

definition example_no_growth_normalized :: dataframe where
  "example_no_growth_normalized =
     [(col_month, [S (ustr ''2023-01'')]),
      (col_sales, [F (Fin 100)]),
      (col_prev, [F (Fin 90)])]"

section \<open>What normalization does to a column\<close>

definition numeric_cols :: "pystr set" where
  "numeric_cols = {col_sales, col_prev, col_growth}"

text \<open>A column before and after one pass of the loop over the numeric columns, before
  and after the conversion of the month column, and before and after both.\<close>

definition step_rel ::
  "(real \<Rightarrow> pystr) \<Rightarrow> pystr \<Rightarrow> pystr \<times> cell list \<Rightarrow> pystr \<times> cell list \<Rightarrow> bool" where
  "step_rel fstr col a b \<longleftrightarrow>
     fst b = fst a \<and>
     (if fst a = col then coerce_cells fstr (snd a) = Inr (snd b) else snd b = snd a)"

definition month_cells :: "(real \<Rightarrow> pystr) \<Rightarrow> cell list \<Rightarrow> cell list" where
  "month_cells fstr cs = map (\<lambda>c. S (strip (astype_str fstr c))) cs"

definition month_rel ::
  "(real \<Rightarrow> pystr) \<Rightarrow> pystr \<times> cell list \<Rightarrow> pystr \<times> cell list \<Rightarrow> bool" where
  "month_rel fstr a b \<longleftrightarrow>
     fst b = fst a \<and>
     (if fst a = col_month then snd b = month_cells fstr (snd a) else snd b = snd a)"

definition norm_rel ::
  "(real \<Rightarrow> pystr) \<Rightarrow> pystr \<times> cell list \<Rightarrow> pystr \<times> cell list \<Rightarrow> bool" where
  "norm_rel fstr a b \<longleftrightarrow>
     fst b = fst a \<and>
     (if fst a \<in> numeric_cols then coerce_cells fstr (snd a) = Inr (snd b)
      else if fst a = col_month then snd b = month_cells fstr (snd a)
      else snd b = snd a)"

text \<open>Two tables with the same text that is not a number, in different columns.\<close>

definition example_bad_sales :: dataframe where
  "example_bad_sales =
     [(ustr ''sales'', [S (ustr ''12''), S (ustr ''a,b c'')]),
      (ustr ''prev'', [I 1, I 2])]"

definition example_bad_prev :: dataframe where
  "example_bad_prev =
     [(ustr ''sales'', [I 1, I 2]),
      (ustr ''prev'', [S (ustr ''12''), S (ustr ''a,b c'')])]"

section \<open>Tables of six rows\<close>

text \<open>Normalized tables in the order of their months, as \<open>hbar_diff\<close> receives them:
  one with six months, one in which the first month occurs twice.\<close>

definition example_six :: dataframe where
  "example_six =
     [(col_month, [S (ustr ''2023-01''), S (ustr ''2023-02''), S (ustr ''2023-03''),
                   S (ustr ''2023-04''), S (ustr ''2023-05''), S (ustr ''2023-06'')]),
      (col_sales, [F (Fin 100), F (Fin 250), F (Fin 300), F (Fin 420), F (Fin 510), F (Fin 600)]),
      (col_prev, [F (Fin 90), F (Fin 180), F (Fin 320), F (Fin 400), F (Fin 515), F (Fin 500)])]"

definition example_six_fig :: hbar where
  "example_six_fig =
     \<lparr>bar_x = [Fin (- 20), Fin (- 5), Fin 10, Fin 20, Fin 70, Fin 100],
      bar_y = [ustr ''2023-03'', ustr ''2023-05'', ustr ''2023-01'',
               ustr ''2023-04'', ustr ''2023-02'', ustr ''2023-06''],
      bar_colours = [Highlight, Highlight, Highlight, Highlight, Highlight, Highlight]\<rparr>"

definition example_repeated :: dataframe where
  "example_repeated =
     [(col_month, [S (ustr ''2023-01''), S (ustr ''2023-01''), S (ustr ''2023-02''),
                   S (ustr ''2023-03''), S (ustr ''2023-04''), S (ustr ''2023-05'')]),
      (col_sales, [F (Fin 100), F (Fin 600), F (Fin 250), F (Fin 300), F (Fin 420), F (Fin 510)]),
      (col_prev, [F (Fin 90), F (Fin 500), F (Fin 180), F (Fin 320), F (Fin 400), F (Fin 515)])]"

definition example_repeated_fig :: hbar where
  "example_repeated_fig =
     \<lparr>bar_x = [Fin (- 20), Fin (- 5), Fin 10, Fin 20, Fin 70, Fin 100],
      bar_y = [ustr ''2023-03'', ustr ''2023-05'', ustr ''2023-01'',
               ustr ''2023-04'', ustr ''2023-02'', ustr ''2023-01''],
      bar_colours = [Highlight, Highlight, Highlight, Highlight, Highlight, Highlight]\<rparr>"

section \<open>Basic facts\<close>

lemma bind_err_Inl [simp]: "bind_err (Inl e) f = Inl e"
  by (simp add: bind_err_def)

lemma bind_err_Inr [simp]: "bind_err (Inr x) f = f x"
  by (simp add: bind_err_def)

lemma bind_err_eq_Inr: "bind_err m f = Inr y \<longleftrightarrow> (\<exists>x. m = Inr x \<and> f x = Inr y)"
  by (cases m) simp_all

lemma growth_Fin:
  "growth (Fin t) (Fin l) = Inr (Fin (if l = 0 then 0 else (t - l) / l * 100))"
  by (simp add: growth_def py_truth_def py_div_def fsub_def fmul_def)

lemma run_InrD:
  assumes "run fstr uploaded = Inr d"
  shows "\<exists>df0 sales prev.
           normalize_columns fstr uploaded = Inr df0 \<and>
           require_columns df0 = Inr () \<and>
           sort_values_str col_month df0 = Inr (table d) \<and>
           float_col (table d) col_sales = Inr sales \<and>
           float_col (table d) col_prev = Inr prev \<and>
           idxmax sales = Inr (max_idx d) \<and>
           idxmin sales = Inr (min_idx d) \<and>
           growth (col_sum sales) (col_sum prev) = Inr (growth_pct d) \<and>
           make_indicator (col_sum sales) (col_sum prev) = Inr (fig_indicator d) \<and>
           hbar_diff (table d) = Inr (fig_diff d) \<and>
           total_sales d = col_sum sales \<and>
           last_year_sales d = col_sum prev \<and>
           avg_sales d = col_mean sales"
  using assms unfolding run_def bind_err_eq_Inr by fastforce

lemma run_InrE:
  assumes "run fstr uploaded = Inr d"
  obtains df0 sales prev where
    "normalize_columns fstr uploaded = Inr df0"
    "require_columns df0 = Inr ()"
    "sort_values_str col_month df0 = Inr (table d)"
    "float_col (table d) col_sales = Inr sales"
    "float_col (table d) col_prev = Inr prev"
    "idxmax sales = Inr (max_idx d)"
    "idxmin sales = Inr (min_idx d)"
    "growth (col_sum sales) (col_sum prev) = Inr (growth_pct d)"
    "make_indicator (col_sum sales) (col_sum prev) = Inr (fig_indicator d)"
    "hbar_diff (table d) = Inr (fig_diff d)"
    "total_sales d = col_sum sales"
    "last_year_sales d = col_sum prev"
    "avg_sales d = col_mean sales"
  using run_InrD [OF assms] by (elim exE conjE) (rule that; assumption)

lemmas label_defs = col_month_def col_sales_def col_prev_def col_growth_def col_diff_def

lemmas float_defs = py_float_def strip_by_def float_space_def isspace_def absfloatvalue_def
  lower_def floatnumber_def is_e_def number_def is_digit_def digits_val_def scale10_def exponent_def

lemma rename_example:
  "rename_columns example_upload =
     [(col_month, [S (ustr ''2023-01''), S (ustr ''2023-03''), S (ustr ''2023-02'')]),
      (col_sales, [S (ustr ''1,200''), S (ustr ''300''), S (ustr ''1,200 '')]),
      (col_prev, [F (Fin 90), F NaN, F (Fin 180)]),
      (col_growth, [I 12, I 5, I 3]),
      (ustr ''note'', [S (ustr ''a, b''), F NaN, F NaN])]"
  by (simp add: rename_columns_def example_upload_def new_label_def strip_def strip_by_def isspace_def
      dict_get_def COLUMN_MAP_def ustr_def label_defs)

lemma numeric_example:
  "numeric_loop repr_int [col_sales, col_prev, col_growth] (rename_columns example_upload) =
     Inr [(col_month, [S (ustr ''2023-01''), S (ustr ''2023-03''), S (ustr ''2023-02'')]),
      (col_sales, [F (Fin 1200), F (Fin 300), F (Fin 1200)]),
      (col_prev, [F (Fin 90), F NaN, F (Fin 180)]),
      (col_growth, [F (Fin 12), F (Fin 5), F (Fin 3)]),
      (ustr ''note'', [S (ustr ''a, b''), F NaN, F NaN])]"
  unfolding rename_example
  by (simp add: to_numeric_def count_col_def set_col_def coerce_cell_def astype_str_def clean_def
      float_str_def repr_int_def str_int_def str_nat.simps ustr_def float_defs label_defs)

lemma normalize_example: "normalize_columns repr_int example_upload = Inr example_normalized"
  unfolding normalize_columns_def Let_def numeric_example
  by (simp add: string_month_def count_col_def set_col_def astype_str_def strip_def strip_by_def
      isspace_def ustr_def label_defs example_normalized_def)

lemma require_example: "require_columns example_normalized = Inr ()"
  by (simp add: require_columns_def must_def columns_def example_normalized_def label_defs ustr_def)

lemma sort_example: "sort_values_str col_month example_normalized = Inr example_table"
  by (simp add: sort_values_str_def str_col_def getitem_def count_col_def example_normalized_def
      example_table_def argsort_def take_rows_def label_defs ustr_def upt_rec)

lemma sales_example:
  "float_col example_table col_sales = Inr [Fin 1200, Fin 1200, Fin 300]"
  by (simp add: float_col_def getitem_def count_col_def example_table_def label_defs ustr_def)

lemma prev_example:
  "float_col example_table col_prev = Inr [Fin 90, Fin 180, NaN]"
  by (simp add: float_col_def getitem_def count_col_def example_table_def label_defs ustr_def)

lemma tmp_example:
  "hbar_tmp example_table =
     Inr [(col_month, [S (ustr ''2023-02''), S (ustr ''2023-01''), S (ustr ''2023-03'')]),
      (col_sales, [F (Fin 1200), F (Fin 1200), F (Fin 300)]),
      (col_prev, [F (Fin 180), F (Fin 90), F NaN]),
      (col_growth, [F (Fin 3), F (Fin 12), F (Fin 5)]),
      (ustr ''note'', [F NaN, S (ustr ''a, b''), F NaN]),
      (col_diff, [F (Fin 1020), F (Fin 1110), F NaN])]"
  unfolding hbar_tmp_def sales_example prev_example
  by (simp add: sort_values_float_def float_col_def getitem_def count_col_def assign_def columns_def
      example_table_def argsort_def take_rows_def nan_last_def fsub_def label_defs ustr_def upt_rec)

lemma hbar_example: "hbar_diff example_table = Inr example_fig_diff"
  unfolding hbar_diff_def tmp_example
  by (simp add: str_col_def float_col_def getitem_def count_col_def example_fig_diff_def
      bar_colour_def top3_def bottom3_def tail3_def head3_def label_defs ustr_def)

lemma run_example: "run repr_int example_upload = Inr example_dashboard"
  unfolding run_def normalize_example bind_err_Inr require_example sort_example sales_example
    prev_example hbar_example
  by (simp add: idxmax_def idxmin_def col_sum_def col_mean_def fillna0_def notna_def growth_Fin
      make_indicator_def example_dashboard_def)

section \<open>Reductions of a column\<close>








section \<open>The growth percentage\<close>



section \<open>Totals and average over the values that are present\<close>



section \<open>First occurrence of the extreme value\<close>











section \<open>Columns of a table whose rows are reordered\<close>

lemma those_cell_str: "those (map cell_str cs) = Some ss \<longleftrightarrow> cs = map S ss"
proof (induction cs arbitrary: ss)
  case Nil
  show ?case by auto
next
  case (Cons c cs)
  show ?case by (cases c) (auto simp: Cons.IH)
qed

lemma those_cell_float: "those (map cell_float cs) = Some xs \<longleftrightarrow> cs = map F xs"
proof (induction cs arbitrary: xs)
  case Nil
  show ?case by auto
next
  case (Cons c cs)
  show ?case by (cases c) (auto simp: Cons.IH)
qed

lemma map_S_eq: "map S a = map S b \<longleftrightarrow> a = b"
  by (simp add: inj_map_eq_map inj_def)

lemma map_F_eq: "map F a = map F b \<longleftrightarrow> a = b"
  by (simp add: inj_map_eq_map inj_def)

lemma str_col_iff:
  "str_col df col = Inr ss \<longleftrightarrow> getitem df col = Inr (map S ss)"
  by (auto simp: str_col_def bind_err_eq_Inr those_cell_str map_S_eq split: option.splits)

lemma float_col_iff:
  "float_col df col = Inr xs \<longleftrightarrow> getitem df col = Inr (map F xs)"
  by (auto simp: float_col_def bind_err_eq_Inr those_cell_float map_F_eq split: option.splits)

lemma map_of_take_rows:
  "map_of (take_rows idx df) col = map_option (\<lambda>cs. map ((!) cs) idx) (map_of df col)"
  by (induction df) (auto simp: take_rows_def)

lemma count_col_take_rows: "count_col (take_rows idx df) col = count_col df col"
  by (induction df) (auto simp: take_rows_def count_col_def)

lemma getitem_take_rows:
  "getitem df col = Inr cs \<Longrightarrow> getitem (take_rows idx df) col = Inr (map ((!) cs) idx)"
  by (auto simp: getitem_def map_of_take_rows count_col_take_rows split: option.splits if_splits)

lemma str_col_take_rows:
  assumes "str_col df col = Inr ss" "\<forall>i \<in> set idx. i < length ss"
  shows "str_col (take_rows idx df) col = Inr (map ((!) ss) idx)"
proof -
  from assms(1) have "getitem (take_rows idx df) col = Inr (map ((!) (map S ss)) idx)"
    by (simp add: str_col_iff getitem_take_rows)
  moreover from assms(2) have "map ((!) (map S ss)) idx = map S (map ((!) ss) idx)"
    by simp
  ultimately show ?thesis by (simp add: str_col_iff)
qed

lemma float_col_take_rows:
  assumes "float_col df col = Inr xs" "\<forall>i \<in> set idx. i < length xs"
  shows "float_col (take_rows idx df) col = Inr (map ((!) xs) idx)"
proof -
  from assms(1) have "getitem (take_rows idx df) col = Inr (map ((!) (map F xs)) idx)"
    by (simp add: float_col_iff getitem_take_rows)
  moreover from assms(2) have "map ((!) (map F xs)) idx = map F (map ((!) xs) idx)"
    by simp
  ultimately show ?thesis by (simp add: float_col_iff)
qed

section \<open>The order of the rows after sorting\<close>

lemma zip_upt_nth:
  assumes "p \<in> set (zip keys [0..<length keys])"
  shows "snd p < length keys \<and> keys ! snd p = fst p"
  using assms by (auto simp: in_set_zip)

lemma mset_argsort: "mset (argsort keys) = mset [0..<length keys]"
proof -
  have "mset (argsort keys) = image_mset snd (mset (zip keys [0..<length keys]))"
    by (simp add: argsort_def)
  also have "\<dots> = mset (map snd (zip keys [0..<length keys]))"
    by (simp only: mset_map)
  also have "map snd (zip keys [0..<length keys]) = [0..<length keys]"
    by (rule map_snd_zip) simp
  finally show ?thesis .
qed

lemma set_argsort: "set (argsort keys) = {..<length keys}"
proof -
  have "set (argsort keys) = set_mset (mset (argsort keys))" by simp
  also have "\<dots> = {..<length keys}" unfolding mset_argsort by auto
  finally show ?thesis .
qed

lemma length_argsort: "length (argsort keys) = length keys"
  by (simp add: argsort_def)

lemma distinct_argsort: "distinct (argsort keys)"
proof -
  have "distinct [0..<length keys]" by simp
  then show ?thesis
    using mset_argsort [of keys] by (metis mset_eq_imp_distinct_iff)
qed

lemma keys_argsort:
  "map ((!) keys) (argsort keys) = map fst (sort_key fst (zip keys [0..<length keys]))"
  unfolding argsort_def map_map
  by (rule map_cong [OF refl]) (simp add: zip_upt_nth)

lemma sorted_keys_argsort: "sorted (map ((!) keys) (argsort keys))"
  unfolding keys_argsort by simp

lemma mset_keys_argsort: "mset (map ((!) keys) (argsort keys)) = mset keys"
proof -
  have "mset (map ((!) keys) (argsort keys)) =
      image_mset fst (mset (zip keys [0..<length keys]))"
    unfolding keys_argsort by simp
  also have "\<dots> = mset (map fst (zip keys [0..<length keys]))"
    by (simp only: mset_map)
  also have "map fst (zip keys [0..<length keys]) = keys"
    by (rule map_fst_zip) simp
  finally show ?thesis .
qed

text \<open>
  Claim C5. In a run that reaches the end, the table is the normalized table with its
  rows in another order, and its month labels are in ascending order of Python's comparison of
  strings, which is lexicographic by code point. The periods 2023-01, 2023-03, 2023-02
  come out as 2023-01, 2023-02, 2023-03.
\<close>
theorem rows_sorted_by_period:
  assumes "run fstr uploaded = Inr d"
  shows "\<exists>df0 months0 months perm.
           normalize_columns fstr uploaded = Inr df0 \<and>
           str_col df0 col_month = Inr months0 \<and>
           mset perm = mset [0..<length months0] \<and>
           table d = take_rows perm df0 \<and>
           str_col (table d) col_month = Inr months \<and>
           months = map ((!) months0) perm \<and>
           sorted months \<and> mset months = mset months0"
proof -
  from assms obtain df0 where
    n: "normalize_columns fstr uploaded = Inr df0" and
    s: "sort_values_str col_month df0 = Inr (table d)"
    by (rule run_InrE)
  from s obtain months0 where
    m0: "str_col df0 col_month = Inr months0" and
    t: "table d = take_rows (argsort months0) df0"
    by (auto simp: sort_values_str_def bind_err_eq_Inr)
  have "\<forall>i \<in> set (argsort months0). i < length months0"
    by (simp add: set_argsort)
  with m0 have "str_col (take_rows (argsort months0) df0) col_month =
      Inr (map ((!) months0) (argsort months0))"
    by (rule str_col_take_rows)
  with t have c: "str_col (table d) col_month = Inr (map ((!) months0) (argsort months0))"
    by simp
  show ?thesis
  proof (intro exI conjI)
    show "normalize_columns fstr uploaded = Inr df0" by (rule n)
    show "str_col df0 col_month = Inr months0" by (rule m0)
    show "mset (argsort months0) = mset [0..<length months0]" by (rule mset_argsort)
    show "table d = take_rows (argsort months0) df0" by (rule t)
    show "str_col (table d) col_month = Inr (map ((!) months0) (argsort months0))" by (rule c)
    show "map ((!) months0) (argsort months0) = map ((!) months0) (argsort months0)" by (rule refl)
    show "sorted (map ((!) months0) (argsort months0))" by (rule sorted_keys_argsort)
    show "mset (map ((!) months0) (argsort months0)) = mset months0" by (rule mset_keys_argsort)
  qed
qed

theorem rows_sorted_by_period_witness:
  "run repr_int example_upload = Inr example_dashboard \<and>
   str_col example_normalized col_month =
     Inr [ustr ''2023-01'', ustr ''2023-03'', ustr ''2023-02''] \<and>
   str_col (table example_dashboard) col_month =
     Inr [ustr ''2023-01'', ustr ''2023-02'', ustr ''2023-03''] \<and>
   (\<exists>df0 months0 months perm.
      normalize_columns repr_int example_upload = Inr df0 \<and>
      str_col df0 col_month = Inr months0 \<and>
      mset perm = mset [0..<length months0] \<and>
      table example_dashboard = take_rows perm df0 \<and>
      str_col (table example_dashboard) col_month = Inr months \<and>
      months = map ((!) months0) perm \<and>
      sorted months \<and> mset months = mset months0)"
proof (intro conjI)
  show "run repr_int example_upload = Inr example_dashboard"
    by (rule run_example)
  show "str_col example_normalized col_month =
      Inr [ustr ''2023-01'', ustr ''2023-03'', ustr ''2023-02'']"
    by (simp add: str_col_def getitem_def count_col_def example_normalized_def label_defs ustr_def)
  show "str_col (table example_dashboard) col_month =
      Inr [ustr ''2023-01'', ustr ''2023-02'', ustr ''2023-03'']"
    by (simp add: str_col_def getitem_def count_col_def example_dashboard_def example_table_def
        label_defs ustr_def)
  show "\<exists>df0 months0 months perm.
      normalize_columns repr_int example_upload = Inr df0 \<and>
      str_col df0 col_month = Inr months0 \<and>
      mset perm = mset [0..<length months0] \<and>
      table example_dashboard = take_rows perm df0 \<and>
      str_col (table example_dashboard) col_month = Inr months \<and>
      months = map ((!) months0) perm \<and>
      sorted months \<and> mset months = mset months0"
    by (rule rows_sorted_by_period [OF run_example])
qed

section \<open>The errors of each step\<close>

lemma bind_err_eq_Inl:
  "bind_err m f = Inl e \<longleftrightarrow> m = Inl e \<or> (\<exists>x. m = Inr x \<and> f x = Inl e)"
  by (cases m) simp_all

lemma getitem_error:
  "getitem df col = Inl e \<Longrightarrow> e = KeyError col \<or> e = DuplicateLabel col"
  by (auto simp: getitem_def split: option.splits if_splits)

lemma str_col_error:
  "str_col df col = Inl e \<Longrightarrow> e = KeyError col \<or> e = DuplicateLabel col \<or> e = TypeError"
  by (auto simp: str_col_def bind_err_eq_Inl dest: getitem_error split: option.splits)

lemma float_col_error:
  "float_col df col = Inl e \<Longrightarrow> e = KeyError col \<or> e = DuplicateLabel col \<or> e = TypeError"
  by (auto simp: float_col_def bind_err_eq_Inl dest: getitem_error split: option.splits)

lemma sort_values_str_error:
  "sort_values_str col df = Inl e \<Longrightarrow> e = KeyError col \<or> e = DuplicateLabel col \<or> e = TypeError"
  by (auto simp: sort_values_str_def bind_err_eq_Inl dest: str_col_error)

lemma sort_values_float_error:
  "sort_values_float col df = Inl e \<Longrightarrow> e = KeyError col \<or> e = DuplicateLabel col \<or> e = TypeError"
  by (auto simp: sort_values_float_def bind_err_eq_Inl dest: float_col_error)

lemma idxmax_error: "idxmax xs = Inl e \<Longrightarrow> e = ValueError_arg"
  by (auto simp: idxmax_def split: option.splits)

lemma idxmin_error: "idxmin xs = Inl e \<Longrightarrow> e = ValueError_arg"
  by (auto simp: idxmin_def split: option.splits)

lemma growth_col_sum: "growth (col_sum xs) (col_sum ys) \<noteq> Inl e"
  by (simp add: col_sum_def growth_Fin)

lemma make_indicator_col_sum: "make_indicator (col_sum xs) (col_sum ys) \<noteq> Inl e"
  by (simp add: make_indicator_def col_sum_def growth_Fin)

lemma hbar_tmp_error:
  "hbar_tmp df = Inl e \<Longrightarrow> (\<exists>col. e = KeyError col \<or> e = DuplicateLabel col) \<or> e = TypeError"
  by (auto simp: hbar_tmp_def bind_err_eq_Inl dest: float_col_error sort_values_float_error)

lemma hbar_diff_error:
  "hbar_diff df = Inl e \<Longrightarrow> (\<exists>col. e = KeyError col \<or> e = DuplicateLabel col) \<or> e = TypeError"
  by (auto simp: hbar_diff_def bind_err_eq_Inl dest: hbar_tmp_error float_col_error str_col_error)

lemma after_validation_error:
  assumes "bind_err (sort_values_str col_month df0) (\<lambda>df.
     bind_err (float_col df col_sales) (\<lambda>sales.
     bind_err (float_col df col_prev) (\<lambda>prev.
     bind_err (idxmax sales) (\<lambda>imax.
     bind_err (idxmin sales) (\<lambda>imin.
     bind_err (growth (col_sum sales) (col_sum prev)) (\<lambda>g.
     bind_err (make_indicator (col_sum sales) (col_sum prev)) (\<lambda>fig1.
     bind_err (hbar_diff df) (\<lambda>fig4. Inr (mk df sales prev imax imin g fig1 fig4))))))))) = Inl e"
  shows "e \<noteq> MissingColumns ms"
  using assms
  by (auto simp: bind_err_eq_Inl growth_col_sum make_indicator_col_sum
      dest: sort_values_str_error float_col_error idxmax_error idxmin_error hbar_diff_error)

lemma require_columns_eq:
  "require_columns df =
     (if set must \<subseteq> set (columns df) then Inr ()
      else Inl (MissingColumns (filter (\<lambda>c. c \<notin> set (columns df)) must)))"
  by (auto simp: require_columns_def Let_def filter_empty_conv)

lemma run_after_normalize:
  assumes "normalize_columns fstr uploaded = Inr df"
  shows "run fstr uploaded = Inl (MissingColumns ms) \<longleftrightarrow>
           \<not> set must \<subseteq> set (columns df) \<and> ms = filter (\<lambda>c. c \<notin> set (columns df)) must"
proof (cases "set must \<subseteq> set (columns df)")
  case True
  then have "require_columns df = Inr ()" by (simp add: require_columns_eq)
  with assms have "run fstr uploaded \<noteq> Inl (MissingColumns ms)"
    unfolding run_def by (auto dest: after_validation_error)
  with True show ?thesis by simp
next
  case False
  then have "require_columns df = Inl (MissingColumns (filter (\<lambda>c. c \<notin> set (columns df)) must))"
    by (simp add: require_columns_eq)
  with assms have "run fstr uploaded = Inl (MissingColumns (filter (\<lambda>c. c \<notin> set (columns df)) must))"
    unfolding run_def by simp
  with False show ?thesis by auto
qed

section \<open>Missing columns\<close>

text \<open>
  Claim C2. For a table that normalization has produced, validation takes the required
  labels that are not among the columns, in the order month, sales, prior-year sales,
  growth rate. The run stops with the error of the missing columns if and only if
  there is such a label, the error carries exactly these labels, and a run that stops
  has no dashboard.
\<close>

theorem missing_columns_stop:
  assumes "normalize_columns fstr uploaded = Inr df"
  shows "((set must - set (columns df) \<noteq> {}) =
            (\<exists>ms. run fstr uploaded = Inl (MissingColumns ms))) \<and>
         (\<forall>ms. run fstr uploaded = Inl (MissingColumns ms) \<longrightarrow>
            set ms = set must - set (columns df) \<and> distinct ms \<and>
            ms = filter (\<lambda>c. c \<notin> set (columns df)) must) \<and>
         require_columns df =
           (if set must - set (columns df) = {} then Inr ()
            else Inl (MissingColumns (filter (\<lambda>c. c \<notin> set (columns df)) must)))"
proof (intro conjI allI impI)
  show "(set must - set (columns df) \<noteq> {}) =
           (\<exists>ms. run fstr uploaded = Inl (MissingColumns ms))"
    by (auto simp: run_after_normalize [OF assms])
  show "require_columns df =
           (if set must - set (columns df) = {} then Inr ()
            else Inl (MissingColumns (filter (\<lambda>c. c \<notin> set (columns df)) must)))"
    by (simp add: require_columns_eq)
next
  fix ms
  assume r: "run fstr uploaded = Inl (MissingColumns ms)"
  then show "set ms = set must - set (columns df)"
    by (auto simp: run_after_normalize [OF assms])
  from r show "distinct ms"
    by (auto simp: run_after_normalize [OF assms] must_def label_defs)
  from r show "ms = filter (\<lambda>c. c \<notin> set (columns df)) must"
    by (simp add: run_after_normalize [OF assms])
qed

lemma normalize_no_growth:
  "normalize_columns repr_int example_no_growth = Inr example_no_growth_normalized"
  by (simp add: normalize_columns_def example_no_growth_def example_no_growth_normalized_def
      rename_columns_def new_label_def strip_def strip_by_def isspace_def dict_get_def
      COLUMN_MAP_def to_numeric_def string_month_def count_col_def set_col_def coerce_cell_def
      astype_str_def clean_def str_int_def str_nat.simps ustr_def float_defs label_defs)

theorem missing_columns_stop_witness:
  "normalize_columns repr_int example_no_growth = Inr example_no_growth_normalized \<and>
   set must - set (columns example_no_growth_normalized) = {col_growth} \<and>
   run repr_int example_no_growth = Inl (MissingColumns [col_growth])"
proof -
  have d: "set must - set (columns example_no_growth_normalized) = {col_growth}"
    by (auto simp: must_def columns_def example_no_growth_normalized_def label_defs)
  have f: "filter (\<lambda>c. c \<notin> set (columns example_no_growth_normalized)) must = [col_growth]"
    by (simp add: must_def columns_def example_no_growth_normalized_def label_defs)
  note t = missing_columns_stop [OF normalize_no_growth]
  from t d obtain ms where ms: "run repr_int example_no_growth = Inl (MissingColumns ms)"
    by auto
  with t have "ms = filter (\<lambda>c. c \<notin> set (columns example_no_growth_normalized)) must"
    by blast
  with f ms have "run repr_int example_no_growth = Inl (MissingColumns [col_growth])"
    by simp
  with d show ?thesis
    using normalize_no_growth by blast
qed

section \<open>Normalization, column by column\<close>

lemma count_col_alt: "count_col df col = length (filter (\<lambda>h. h = col) (map fst df))"
  by (simp add: count_col_def filter_map comp_def)

lemma count_col_labels: "map fst df' = map fst df \<Longrightarrow> count_col df' col = count_col df col"
  by (simp add: count_col_alt)

lemma count_col_le_1:
  assumes "count_col (a # df) col \<le> 1" "fst a = col"
  shows "\<forall>p \<in> set df. fst p \<noteq> col"
proof -
  from assms have "filter (\<lambda>p. fst p = col) df = []"
    by (simp add: count_col_def)
  then show ?thesis
    by (simp add: filter_empty_conv)
qed

lemma map_of_None_labels: "map_of df col = None \<longleftrightarrow> col \<notin> fst ` set df"
  by (simp add: map_of_eq_None_iff)

lemma list_all2_same: "list_all2 P xs xs \<longleftrightarrow> (\<forall>x \<in> set xs. P x x)"
  by (induction xs) auto

lemma unique_col:
  "map_of df col = Some cs \<Longrightarrow> count_col df col \<le> 1 \<Longrightarrow> (col, cs0) \<in> set df \<Longrightarrow> cs0 = cs"
proof (induction df)
  case Nil
  then show ?case by simp
next
  case (Cons a df)
  obtain h c where a: "a = (h, c)" by (cases a)
  show ?case
  proof (cases "h = col")
    case True
    with Cons.prems(2) a have "\<forall>p \<in> set df. fst p \<noteq> col"
      using count_col_le_1 [of a df col] by simp
    then have "(col, cs0) \<notin> set df" by force
    with Cons.prems(3) a have "c = cs0" by simp
    moreover from Cons.prems(1) a True have "c = cs" by simp
    ultimately show ?thesis by simp
  next
    case False
    with Cons.prems a have "map_of df col = Some cs" "count_col df col \<le> 1" "(col, cs0) \<in> set df"
      by (simp_all add: count_col_def)
    then show ?thesis by (rule Cons.IH)
  qed
qed

lemma list_all2_labels:
  assumes "list_all2 (\<lambda>a b. fst b = fst a \<and> Q a b) df df'"
  shows "map fst df' = map fst df"
proof (rule nth_equalityI)
  from assms show "length (map fst df') = length (map fst df)"
    by (simp add: list_all2_lengthD)
next
  fix i assume "i < length (map fst df')"
  with assms show "map fst df' ! i = map fst df ! i"
    by (simp add: list_all2_conv_all_nth)
qed

lemma to_numeric_rel:
  assumes "to_numeric fstr col df = Inr df'"
  shows "list_all2 (step_rel fstr col) df df' \<and> count_col df col \<le> 1"
proof (cases "map_of df col")
  case None
  with assms have "df' = df" by (simp add: to_numeric_def)
  moreover from None have "\<forall>a \<in> set df. fst a \<noteq> col"
    by (force simp: map_of_None_labels)
  moreover from this have "filter (\<lambda>p. fst p = col) df = []"
    by (simp add: filter_empty_conv)
  ultimately show ?thesis
    by (simp add: list_all2_same step_rel_def count_col_def)
next
  case (Some cs)
  with assms obtain xs where
    c: "count_col df col \<le> 1" and x: "coerce_cells fstr cs = Inr xs" and
    d: "df' = set_col df col xs"
    by (auto simp: to_numeric_def split: if_splits sum.splits)
  have "list_all2 (step_rel fstr col) df (map (\<lambda>(h, cs). if h = col then (h, xs) else (h, cs)) df)"
    unfolding list_all2_map2
  proof (subst list_all2_same, rule ballI)
    fix a assume a: "a \<in> set df"
    obtain h cs0 where [simp]: "a = (h, cs0)" by (cases a)
    show "step_rel fstr col a (case a of (h, cs) \<Rightarrow> if h = col then (h, xs) else (h, cs))"
    proof (cases "h = col")
      case True
      with a have "cs0 = cs" using unique_col [OF Some c] by simp
      with True x show ?thesis by (simp add: step_rel_def)
    next
      case False
      then show ?thesis by (simp add: step_rel_def)
    qed
  qed
  with c d show ?thesis by (simp add: set_col_def)
qed

lemma string_month_rel:
  assumes "string_month fstr df = Inr df'"
  shows "list_all2 (month_rel fstr) df df' \<and> count_col df col_month \<le> 1"
proof (cases "map_of df col_month")
  case None
  with assms have "df' = df" by (simp add: string_month_def)
  moreover from None have "\<forall>a \<in> set df. fst a \<noteq> col_month"
    by (force simp: map_of_None_labels)
  moreover from this have "filter (\<lambda>p. fst p = col_month) df = []"
    by (simp add: filter_empty_conv)
  ultimately show ?thesis
    by (simp add: list_all2_same month_rel_def count_col_def)
next
  case (Some cs)
  with assms have
    c: "count_col df col_month \<le> 1" and
    d: "df' = set_col df col_month (month_cells fstr cs)"
    by (auto simp: string_month_def month_cells_def split: if_splits)
  have "list_all2 (month_rel fstr) df
      (map (\<lambda>(h, cs'). if h = col_month then (h, month_cells fstr cs) else (h, cs')) df)"
    unfolding list_all2_map2
  proof (subst list_all2_same, rule ballI)
    fix a assume a: "a \<in> set df"
    obtain h cs0 where [simp]: "a = (h, cs0)" by (cases a)
    show "month_rel fstr a
        (case a of (h, cs') \<Rightarrow> if h = col_month then (h, month_cells fstr cs) else (h, cs'))"
    proof (cases "h = col_month")
      case True
      with a have "cs0 = cs" using unique_col [OF Some c] by simp
      with True show ?thesis by (simp add: month_rel_def)
    next
      case False
      then show ?thesis by (simp add: month_rel_def)
    qed
  qed
  with c d show ?thesis by (simp add: set_col_def)
qed

lemma step_rel_labels: "list_all2 (step_rel fstr col) df df' \<Longrightarrow> map fst df' = map fst df"
  unfolding step_rel_def by (rule list_all2_labels)

lemma month_rel_labels: "list_all2 (month_rel fstr) df df' \<Longrightarrow> map fst df' = map fst df"
  unfolding month_rel_def by (rule list_all2_labels)

lemma norm_rel_labels: "list_all2 (norm_rel fstr) df df' \<Longrightarrow> map fst df' = map fst df"
  unfolding norm_rel_def by (rule list_all2_labels)

lemma labels_distinct:
  "col_sales \<noteq> col_prev" "col_sales \<noteq> col_growth" "col_prev \<noteq> col_growth"
  "col_month \<noteq> col_sales" "col_month \<noteq> col_prev" "col_month \<noteq> col_growth"
  by (simp_all add: label_defs)

lemma norm_rel_compose:
  assumes "step_rel fstr col_sales a b" "step_rel fstr col_prev b c"
    "step_rel fstr col_growth c d" "month_rel fstr d e"
  shows "norm_rel fstr a e"
proof -
  from assms have l: "fst b = fst a" "fst c = fst a" "fst d = fst a" "fst e = fst a"
    by (simp_all add: step_rel_def month_rel_def)
  consider "fst a = col_sales" | "fst a = col_prev" | "fst a = col_growth" | "fst a = col_month"
    | "fst a \<notin> insert col_month numeric_cols"
    by (auto simp: numeric_cols_def)
  then show ?thesis
  proof cases
    case 1
    with assms l labels_distinct show ?thesis
      by (simp add: step_rel_def month_rel_def norm_rel_def numeric_cols_def)
  next
    case 2
    with assms l labels_distinct show ?thesis
      by (simp add: step_rel_def month_rel_def norm_rel_def numeric_cols_def)
  next
    case 3
    with assms l labels_distinct show ?thesis
      by (simp add: step_rel_def month_rel_def norm_rel_def numeric_cols_def)
  next
    case 4
    with assms l labels_distinct show ?thesis
      by (simp add: step_rel_def month_rel_def norm_rel_def numeric_cols_def)
  next
    case 5
    with assms l show ?thesis
      by (simp add: step_rel_def month_rel_def norm_rel_def numeric_cols_def)
  qed
qed

lemma normalize_rel:
  assumes "normalize_columns fstr df = Inr out"
  shows "list_all2 (norm_rel fstr) (rename_columns df) out"
    and "\<forall>col \<in> insert col_month numeric_cols. count_col (rename_columns df) col \<le> 1"
proof -
  from assms obtain d1 d2 d3 where
    1: "to_numeric fstr col_sales (rename_columns df) = Inr d1" and
    2: "to_numeric fstr col_prev d1 = Inr d2" and
    3: "to_numeric fstr col_growth d2 = Inr d3" and
    4: "string_month fstr d3 = Inr out"
    by (auto simp: normalize_columns_def Let_def split: sum.splits)
  note r1 = to_numeric_rel [OF 1, THEN conjunct1] and r2 = to_numeric_rel [OF 2, THEN conjunct1]
    and r3 = to_numeric_rel [OF 3, THEN conjunct1] and r4 = string_month_rel [OF 4, THEN conjunct1]
  note c1 = to_numeric_rel [OF 1, THEN conjunct2] and c2 = to_numeric_rel [OF 2, THEN conjunct2]
    and c3 = to_numeric_rel [OF 3, THEN conjunct2] and c4 = string_month_rel [OF 4, THEN conjunct2]
  have l1: "map fst d1 = map fst (rename_columns df)"
    using r1 by (rule step_rel_labels)
  have "map fst d2 = map fst d1"
    using r2 by (rule step_rel_labels)
  with l1 have l2: "map fst d2 = map fst (rename_columns df)" by simp
  have "map fst d3 = map fst d2"
    using r3 by (rule step_rel_labels)
  with l2 have l3: "map fst d3 = map fst (rename_columns df)" by simp
  show "\<forall>col \<in> insert col_month numeric_cols. count_col (rename_columns df) col \<le> 1"
    using c1 c2 c3 c4 count_col_labels [OF l1] count_col_labels [OF l2] count_col_labels [OF l3]
    by (simp add: numeric_cols_def)
  from r1 r2 have "list_all2 (step_rel fstr col_sales OO step_rel fstr col_prev) (rename_columns df) d2"
    by (auto simp: list.rel_compp intro: relcomppI)
  with r3 have "list_all2 ((step_rel fstr col_sales OO step_rel fstr col_prev) OO step_rel fstr col_growth)
      (rename_columns df) d3"
    by (auto simp: list.rel_compp intro: relcomppI)
  with r4 have "list_all2 (((step_rel fstr col_sales OO step_rel fstr col_prev) OO
      step_rel fstr col_growth) OO month_rel fstr) (rename_columns df) out"
    by (auto simp: list.rel_compp intro: relcomppI)
  then show "list_all2 (norm_rel fstr) (rename_columns df) out"
    by (rule list_all2_mono) (auto intro: norm_rel_compose)
qed

section \<open>Renaming\<close>

lemma rename_cells: "map snd (rename_columns df) = map snd df"
  by (induction df) (auto simp: rename_columns_def)

lemma rename_labels: "map fst (rename_columns df) = map new_label (map fst df)"
  by (induction df) (auto simp: rename_columns_def)

lemma rename_nth:
  "i < length df \<Longrightarrow> rename_columns df ! i = (new_label (fst (df ! i)), snd (df ! i))"
  by (simp add: rename_columns_def split_beta)

lemma new_label_unknown: "map_of COLUMN_MAP (strip c) = None \<Longrightarrow> new_label c = strip c"
  by (simp add: new_label_def dict_get_def)

lemma canonical_known:
  "map_of COLUMN_MAP col_month = Some col_month" "map_of COLUMN_MAP col_sales = Some col_sales"
  "map_of COLUMN_MAP col_prev = Some col_prev" "map_of COLUMN_MAP col_growth = Some col_growth"
  by (simp_all add: COLUMN_MAP_def label_defs ustr_def)

lemma unknown_not_canonical:
  assumes "map_of COLUMN_MAP k = None"
  shows "k \<notin> numeric_cols" "k \<noteq> col_month"
  using assms canonical_known by (auto simp: numeric_cols_def)

lemma normalize_length:
  assumes "normalize_columns fstr df = Inr out"
  shows "length out = length df"
proof -
  from normalize_rel(1) [OF assms] have "length out = length (rename_columns df)"
    by (simp add: list_all2_lengthD)
  then show ?thesis by (simp add: rename_columns_def)
qed

lemma normalize_nth:
  assumes "normalize_columns fstr df = Inr out" "i < length df"
  shows "norm_rel fstr (new_label (fst (df ! i)), snd (df ! i)) (out ! i)"
proof -
  from assms(2) have "i < length (rename_columns df)" by (simp add: rename_columns_def)
  with normalize_rel(1) [OF assms(1)] have "norm_rel fstr (rename_columns df ! i) (out ! i)"
    by (rule list_all2_nthD)
  with assms(2) show ?thesis by (simp add: rename_nth)
qed

text \<open>
  Claim C9, as amended. Renaming changes labels only: the cells of every column are
  kept, and each label becomes its new label. A column whose trimmed label is not a key
  of the synonym table leaves normalization with its cells as they were and with the
  trimmed label as its label: white space around the label is removed, and nothing else
  of the column changes.
\<close>
theorem rename_keeps_cells:
  "map snd (rename_columns df) = map snd df \<and>
   columns (rename_columns df) = map new_label (columns df) \<and>
   (\<forall>c. map_of COLUMN_MAP (strip c) = None \<longrightarrow> new_label c = strip c) \<and>
   (\<forall>out. normalize_columns fstr df = Inr out \<longrightarrow>
      length out = length df \<and>
      (\<forall>i < length df. map_of COLUMN_MAP (strip (fst (df ! i))) = None \<longrightarrow>
         out ! i = (strip (fst (df ! i)), snd (df ! i))))"
proof (intro conjI allI impI)
  show "map snd (rename_columns df) = map snd df" by (rule rename_cells)
  show "columns (rename_columns df) = map new_label (columns df)"
    by (simp add: columns_def rename_labels)
next
  fix c assume "map_of COLUMN_MAP (strip c) = None"
  then show "new_label c = strip c" by (rule new_label_unknown)
next
  fix out assume "normalize_columns fstr df = Inr out"
  then show "length out = length df" by (rule normalize_length)
next
  fix out i
  assume n: "normalize_columns fstr df = Inr out" and i: "i < length df"
    and u: "map_of COLUMN_MAP (strip (fst (df ! i))) = None"
  from u have l: "new_label (fst (df ! i)) = strip (fst (df ! i))" by (rule new_label_unknown)
  from normalize_nth [OF n i] l unknown_not_canonical [OF u]
  have "fst (out ! i) = strip (fst (df ! i))" "snd (out ! i) = snd (df ! i)"
    by (simp_all add: norm_rel_def)
  then show "out ! i = (strip (fst (df ! i)), snd (df ! i))"
    by (simp add: prod_eq_iff)
qed

theorem rename_keeps_cells_witness:
  "normalize_columns repr_int example_upload = Inr example_normalized \<and>
   example_upload ! 4 = (ustr ''note '', [S (ustr ''a, b''), F NaN, F NaN]) \<and>
   map_of COLUMN_MAP (strip (ustr ''note '')) = None \<and>
   example_normalized ! 4 = (ustr ''note'', [S (ustr ''a, b''), F NaN, F NaN])"
proof -
  have u: "example_upload ! 4 = (ustr ''note '', [S (ustr ''a, b''), F NaN, F NaN])"
    by (simp add: example_upload_def)
  have s: "strip (ustr ''note '') = ustr ''note''"
    by (simp add: strip_def strip_by_def isspace_def ustr_def)
  have m: "map_of COLUMN_MAP (strip (ustr ''note '')) = None"
    unfolding s by (simp add: COLUMN_MAP_def label_defs ustr_def)
  have i: "4 < length example_upload" by (simp add: example_upload_def)
  from rename_keeps_cells [of example_upload repr_int] normalize_example i m u
  have "example_normalized ! 4 = (strip (fst (example_upload ! 4)), snd (example_upload ! 4))"
    by (metis fst_conv)
  with u s have "example_normalized ! 4 = (ustr ''note'', [S (ustr ''a, b''), F NaN, F NaN])"
    by simp
  with u m show ?thesis using normalize_example by (intro conjI)
qed

text \<open>
  Claim C9 as the specification states it has such a column pass through unchanged. The
  column with the label \<open>note\<close> followed by a space is not in the synonym table; it
  keeps its cells, but its label loses the space, so the column of the normalized table
  is not the column of the upload.
\<close>

theorem padded_label_is_trimmed:
  "normalize_columns repr_int example_upload = Inr example_normalized \<and>
   fst (example_upload ! 4) = ustr ''note '' \<and>
   map_of COLUMN_MAP (strip (ustr ''note '')) = None \<and>
   fst (example_normalized ! 4) = ustr ''note'' \<and>
   snd (example_normalized ! 4) = snd (example_upload ! 4) \<and>
   example_normalized ! 4 \<noteq> example_upload ! 4"
proof -
  have u: "fst (example_upload ! 4) = ustr ''note ''"
    by (simp add: example_upload_def)
  have s: "strip (ustr ''note '') = ustr ''note''"
    by (simp add: strip_def strip_by_def isspace_def ustr_def)
  have m: "map_of COLUMN_MAP (strip (ustr ''note '')) = None"
    unfolding s by (simp add: COLUMN_MAP_def label_defs ustr_def)
  have n: "fst (example_normalized ! 4) = ustr ''note''"
    by (simp add: example_normalized_def)
  have c: "snd (example_normalized ! 4) = snd (example_upload ! 4)"
    by (simp add: example_normalized_def example_upload_def)
  have "ustr ''note'' \<noteq> ustr ''note ''"
    by (simp add: ustr_def)
  with u n have d: "example_normalized ! 4 \<noteq> example_upload ! 4"
    by auto
  show ?thesis
    by (intro conjI) (rule normalize_example u m n c d)+
qed

section \<open>Coercion of a numeric column\<close>

lemma clean_filter: "clean s = filter (\<lambda>k. k \<noteq> 44 \<and> k \<noteq> 32) s"
  by (simp add: clean_def conj_commute)

lemma coerce_cell_eq_Inr:
  "coerce_cell fstr c = Inr x \<longleftrightarrow>
     (clean (astype_str fstr c) = [] \<and> x = NaN) \<or>
     (clean (astype_str fstr c) \<noteq> [] \<and> py_float (clean (astype_str fstr c)) = Parsed x)"
  by (auto simp: coerce_cell_def Let_def split: parsed.splits)

lemma coerce_cells_Inr_D:
  "coerce_cells fstr cs = Inr cs' \<Longrightarrow>
     list_all2 (\<lambda>c c'. \<exists>x. coerce_cell fstr c = Inr x \<and> c' = F x) cs cs'"
  by (induction cs arbitrary: cs') (auto split: sum.splits)

lemma coerce_cells_Inr_I:
  "list_all2 (\<lambda>c c'. \<exists>x. coerce_cell fstr c = Inr x \<and> c' = F x) cs cs' \<Longrightarrow>
     coerce_cells fstr cs = Inr cs'"
  by (induction cs cs' rule: list_all2_induct) auto

lemma coerce_cells_eq_Inr:
  "coerce_cells fstr cs = Inr cs' \<longleftrightarrow>
     list_all2 (\<lambda>c c'. \<exists>x. coerce_cell fstr c = Inr x \<and> c' = F x) cs cs'"
  by (blast intro: coerce_cells_Inr_D coerce_cells_Inr_I)

lemma coerce_example: "coerce_cell fstr (S (ustr ''1,234 '')) = Inr (Fin 1234)"
  by (simp add: coerce_cell_def astype_str_def clean_def ustr_def float_defs)

text \<open>
  Claim C6. A cell of a numeric column is coerced by taking its string form, removing
  every comma and every space, and then giving NaN for the empty string and the number
  that \<open>float()\<close> reads otherwise; normalization does this to every cell of the
  three numeric columns. The string \<open>1,234\<close> followed by a space gives 1234.
\<close>
theorem coercion_of_numeric_cells:
  "coerce_cell fstr (S (ustr ''1,234 '')) = Inr (Fin 1234) \<and>
   (\<forall>c x. coerce_cell fstr c = Inr x \<longleftrightarrow>
      (let s = filter (\<lambda>k. k \<noteq> 44 \<and> k \<noteq> 32) (astype_str fstr c)
       in (s = [] \<and> x = NaN) \<or> (s \<noteq> [] \<and> py_float s = Parsed x))) \<and>
   (\<forall>df out. normalize_columns fstr df = Inr out \<longrightarrow>
      (\<forall>i < length df. new_label (fst (df ! i)) \<in> numeric_cols \<longrightarrow>
         fst (out ! i) = new_label (fst (df ! i)) \<and>
         length (snd (out ! i)) = length (snd (df ! i)) \<and>
         (\<forall>j < length (snd (df ! i)).
            \<exists>x. coerce_cell fstr (snd (df ! i) ! j) = Inr x \<and> snd (out ! i) ! j = F x)))"
proof (intro conjI allI impI)
  show "coerce_cell fstr (S (ustr ''1,234 '')) = Inr (Fin 1234)" by (rule coerce_example)
next
  fix c x
  show "coerce_cell fstr c = Inr x \<longleftrightarrow>
      (let s = filter (\<lambda>k. k \<noteq> 44 \<and> k \<noteq> 32) (astype_str fstr c)
       in (s = [] \<and> x = NaN) \<or> (s \<noteq> [] \<and> py_float s = Parsed x))"
    by (simp add: coerce_cell_eq_Inr clean_filter Let_def)
next
  fix df out i
  assume n: "normalize_columns fstr df = Inr out" and i: "i < length df"
    and l: "new_label (fst (df ! i)) \<in> numeric_cols"
  from normalize_nth [OF n i] l have
    f: "fst (out ! i) = new_label (fst (df ! i))" and
    c: "coerce_cells fstr (snd (df ! i)) = Inr (snd (out ! i))"
    by (simp_all add: norm_rel_def)
  from c have a: "list_all2 (\<lambda>c c'. \<exists>x. coerce_cell fstr c = Inr x \<and> c' = F x)
      (snd (df ! i)) (snd (out ! i))"
    by (simp add: coerce_cells_eq_Inr)
  from f show "fst (out ! i) = new_label (fst (df ! i))" .
  from a show "length (snd (out ! i)) = length (snd (df ! i))"
    by (simp add: list_all2_lengthD)
  fix j assume "j < length (snd (df ! i))"
  with a show "\<exists>x. coerce_cell fstr (snd (df ! i) ! j) = Inr x \<and> snd (out ! i) ! j = F x"
    by (rule list_all2_nthD)
qed

theorem coercion_of_numeric_cells_witness:
  "normalize_columns repr_int example_upload = Inr example_normalized \<and>
   new_label (fst (example_upload ! 1)) = col_sales \<and>
   snd (example_upload ! 1) ! 2 = S (ustr ''1,200 '') \<and>
   snd (example_normalized ! 1) ! 2 = F (Fin 1200) \<and>
   coerce_cell repr_int (S (ustr ''1,200 '')) = Inr (Fin 1200)"
proof -
  have l: "new_label (fst (example_upload ! 1)) = col_sales"
    by (simp add: example_upload_def new_label_def strip_def strip_by_def isspace_def dict_get_def
        COLUMN_MAP_def label_defs ustr_def)
  have u: "snd (example_upload ! 1) ! 2 = S (ustr ''1,200 '')"
    and n: "snd (example_normalized ! 1) ! 2 = F (Fin 1200)"
    and i: "1 < length example_upload" and j: "2 < length (snd (example_upload ! 1))"
    by (simp_all add: example_upload_def example_normalized_def)
  from l have m: "new_label (fst (example_upload ! 1)) \<in> numeric_cols"
    by (simp add: numeric_cols_def)
  from coercion_of_numeric_cells [of repr_int] normalize_example i m j
  have "\<exists>x. coerce_cell repr_int (snd (example_upload ! 1) ! 2) = Inr x \<and>
      snd (example_normalized ! 1) ! 2 = F x"
    by blast
  with u n have "coerce_cell repr_int (S (ustr ''1,200 '')) = Inr (Fin 1200)"
    by auto
  with l u n show ?thesis using normalize_example by (intro conjI)
qed

section \<open>Cells that are not numbers\<close>

lemma list_all2_left:
  assumes "list_all2 P xs ys" "x \<in> set xs"
  shows "\<exists>y \<in> set ys. P x y"
proof -
  from assms(2) obtain i where i: "i < length xs" "xs ! i = x"
    by (auto simp: in_set_conv_nth)
  from assms(1) i(1) have "P (xs ! i) (ys ! i)" by (rule list_all2_nthD)
  moreover from assms(1) i(1) have "ys ! i \<in> set ys"
    by (simp add: list_all2_lengthD)
  ultimately show ?thesis using i(2) by blast
qed

lemma list_all2_right:
  assumes "list_all2 P xs ys" "y \<in> set ys"
  shows "\<exists>x \<in> set xs. P x y"
proof -
  from assms(2) obtain i where i: "i < length ys" "ys ! i = y"
    by (auto simp: in_set_conv_nth)
  from assms(1) i(1) have "P (xs ! i) (ys ! i)" by (rule list_all2_nthD2)
  moreover from assms(1) i(1) have "xs ! i \<in> set xs"
    by (simp add: list_all2_lengthD)
  ultimately show ?thesis using i(2) by blast
qed

lemma coerce_cell_eq_Inl:
  "coerce_cell fstr c = Inl e \<longleftrightarrow>
     clean (astype_str fstr c) \<noteq> [] \<and>
     (py_float (clean (astype_str fstr c)) = Unparseable \<and>
        e = ValueError_float (clean (astype_str fstr c)) \<or>
      py_float (clean (astype_str fstr c)) = Unmodelled \<and>
        e = UnmodelledFloat (clean (astype_str fstr c)))"
  by (auto simp: coerce_cell_def Let_def split: parsed.splits)

lemma coerce_cells_error:
  "coerce_cells fstr cs = Inl e \<Longrightarrow> \<exists>c \<in> set cs. coerce_cell fstr c = Inl e"
  by (induction cs) (auto split: sum.splits)

lemma coerce_cells_all:
  "coerce_cells fstr cs = Inr cs' \<Longrightarrow> c \<in> set cs \<Longrightarrow> \<exists>x. coerce_cell fstr c = Inr x"
  by (induction cs arbitrary: cs') (auto split: sum.splits)

lemma to_numeric_error:
  assumes "to_numeric fstr col df = Inl e"
  shows "e = AttributeError \<or> (\<exists>cs. (col, cs) \<in> set df \<and> coerce_cells fstr cs = Inl e)"
proof (cases "map_of df col")
  case None
  with assms show ?thesis by (simp add: to_numeric_def)
next
  case (Some cs)
  then have "(col, cs) \<in> set df" by (rule map_of_SomeD)
  with assms Some show ?thesis
    by (auto simp: to_numeric_def split: if_splits sum.splits)
qed

lemma string_month_error: "string_month fstr df = Inl e \<Longrightarrow> e = AttributeError"
  by (auto simp: string_month_def split: option.splits if_splits)

lemma step_rel_keeps:
  assumes "list_all2 (step_rel fstr col) df df'" "(h, cs) \<in> set df'" "h \<noteq> col"
  shows "(h, cs) \<in> set df"
proof -
  from list_all2_right [OF assms(1,2)] obtain a where
    a: "a \<in> set df" "step_rel fstr col a (h, cs)" by blast
  with assms(3) have "a = (h, cs)"
    by (cases a) (auto simp: step_rel_def split: if_splits)
  with a show ?thesis by simp
qed

lemma normalize_error:
  assumes "normalize_columns fstr df = Inl e"
  shows "e = AttributeError \<or>
         (\<exists>h cs. (h, cs) \<in> set (rename_columns df) \<and> h \<in> numeric_cols \<and>
            coerce_cells fstr cs = Inl e)"
proof (cases "to_numeric fstr col_sales (rename_columns df)")
  case (Inl e1)
  with assms have "e1 = e" by (simp add: normalize_columns_def)
  with Inl to_numeric_error [of fstr col_sales "rename_columns df" e] show ?thesis
    by (auto simp: numeric_cols_def)
next
  case d1: (Inr d1)
  note r1 = to_numeric_rel [OF d1, THEN conjunct1]
  show ?thesis
  proof (cases "to_numeric fstr col_prev d1")
    case (Inl e2)
    with assms d1 have "e2 = e" by (simp add: normalize_columns_def)
    with Inl to_numeric_error [of fstr col_prev d1 e] have
      "e = AttributeError \<or> (\<exists>cs. (col_prev, cs) \<in> set d1 \<and> coerce_cells fstr cs = Inl e)"
      by simp
    then show ?thesis
    proof
      assume "e = AttributeError"
      then show ?thesis by simp
    next
      assume "\<exists>cs. (col_prev, cs) \<in> set d1 \<and> coerce_cells fstr cs = Inl e"
      then obtain cs where cs: "(col_prev, cs) \<in> set d1" "coerce_cells fstr cs = Inl e"
        by blast
      from step_rel_keeps [OF r1 cs(1)] labels_distinct have "(col_prev, cs) \<in> set (rename_columns df)"
        by simp
      with cs(2) show ?thesis by (auto simp: numeric_cols_def)
    qed
  next
    case d2: (Inr d2)
    note r2 = to_numeric_rel [OF d2, THEN conjunct1]
    show ?thesis
    proof (cases "to_numeric fstr col_growth d2")
      case (Inl e3)
      with assms d1 d2 have "e3 = e" by (simp add: normalize_columns_def)
      with Inl to_numeric_error [of fstr col_growth d2 e] have
        "e = AttributeError \<or> (\<exists>cs. (col_growth, cs) \<in> set d2 \<and> coerce_cells fstr cs = Inl e)"
        by simp
      then show ?thesis
      proof
        assume "e = AttributeError"
        then show ?thesis by simp
      next
        assume "\<exists>cs. (col_growth, cs) \<in> set d2 \<and> coerce_cells fstr cs = Inl e"
        then obtain cs where cs: "(col_growth, cs) \<in> set d2" "coerce_cells fstr cs = Inl e"
          by blast
        from step_rel_keeps [OF r2 cs(1)] labels_distinct have "(col_growth, cs) \<in> set d1"
          by simp
        from step_rel_keeps [OF r1 this] labels_distinct have "(col_growth, cs) \<in> set (rename_columns df)"
          by simp
        with cs(2) show ?thesis by (auto simp: numeric_cols_def)
      qed
    next
      case d3: (Inr d3)
      with assms d1 d2 have "string_month fstr d3 = Inl e"
        by (simp add: normalize_columns_def)
      then show ?thesis by (simp add: string_month_error)
    qed
  qed
qed

lemma normalize_coerces:
  assumes "normalize_columns fstr df = Inr out" "(h, cs) \<in> set (rename_columns df)"
    "h \<in> numeric_cols" "c \<in> set cs"
  shows "\<exists>x. coerce_cell fstr c = Inr x"
proof -
  from list_all2_left [OF normalize_rel(1) [OF assms(1)] assms(2)] obtain b where
    "norm_rel fstr (h, cs) b" by blast
  with assms(3) have "coerce_cells fstr cs = Inr (snd b)"
    by (simp add: norm_rel_def)
  from coerce_cells_all [OF this assms(4)] show ?thesis .
qed

lemma run_normalize_error: "normalize_columns fstr df = Inl e \<Longrightarrow> run fstr df = Inl e"
  by (simp add: run_def)

text \<open>
  Claim C3, as amended. Where a cell of a numeric column has a string form that, with
  its commas and spaces removed, is not empty and is not a number for \<open>float()\<close>,
  normalization fails and the run ends with that error, without a dashboard. The error
  is the AttributeError of a label that occurs twice, or the ValueError of
  \<open>float()\<close> for a cell of a numeric column, which quotes the string it was given and
  nothing of the column (or the cell holds a string that the model of \<open>float()\<close>
  does not decide). Nothing catches the error.
\<close>
theorem unparseable_cell_fails:
  assumes "(h, cs) \<in> set (rename_columns df)" "h \<in> numeric_cols" "c \<in> set cs"
    "clean (astype_str fstr c) \<noteq> []" "py_float (clean (astype_str fstr c)) = Unparseable"
  shows "\<exists>e. normalize_columns fstr df = Inl e \<and> run fstr df = Inl e \<and>
           (e = AttributeError \<or>
            (\<exists>h' cs' c'. (h', cs') \<in> set (rename_columns df) \<and> h' \<in> numeric_cols \<and>
               c' \<in> set cs' \<and> clean (astype_str fstr c') \<noteq> [] \<and>
               (py_float (clean (astype_str fstr c')) = Unparseable \<and>
                  e = ValueError_float (clean (astype_str fstr c')) \<or>
                py_float (clean (astype_str fstr c')) = Unmodelled \<and>
                  e = UnmodelledFloat (clean (astype_str fstr c')))))"
proof (cases "normalize_columns fstr df")
  case (Inr out)
  from normalize_coerces [OF Inr assms(1-3)] assms(4,5) show ?thesis
    by (auto simp: coerce_cell_def Let_def)
next
  case (Inl e)
  from normalize_error [OF Inl] have
    "e = AttributeError \<or>
       (\<exists>h' cs' c'. (h', cs') \<in> set (rename_columns df) \<and> h' \<in> numeric_cols \<and>
          c' \<in> set cs' \<and> coerce_cell fstr c' = Inl e)"
    by (blast dest: coerce_cells_error)
  then have "e = AttributeError \<or>
            (\<exists>h' cs' c'. (h', cs') \<in> set (rename_columns df) \<and> h' \<in> numeric_cols \<and>
               c' \<in> set cs' \<and> clean (astype_str fstr c') \<noteq> [] \<and>
               (py_float (clean (astype_str fstr c')) = Unparseable \<and>
                  e = ValueError_float (clean (astype_str fstr c')) \<or>
                py_float (clean (astype_str fstr c')) = Unmodelled \<and>
                  e = UnmodelledFloat (clean (astype_str fstr c'))))"
    unfolding coerce_cell_eq_Inl .
  with Inl run_normalize_error [OF Inl] show ?thesis by blast
qed

lemma rename_bad_sales:
  "rename_columns example_bad_sales =
     [(col_sales, [S (ustr ''12''), S (ustr ''a,b c'')]), (col_prev, [I 1, I 2])]"
  by (simp add: rename_columns_def example_bad_sales_def new_label_def strip_def strip_by_def
      isspace_def dict_get_def COLUMN_MAP_def ustr_def label_defs)

lemma rename_bad_prev:
  "rename_columns example_bad_prev =
     [(col_sales, [I 1, I 2]), (col_prev, [S (ustr ''12''), S (ustr ''a,b c'')])]"
  by (simp add: rename_columns_def example_bad_prev_def new_label_def strip_def strip_by_def
      isspace_def dict_get_def COLUMN_MAP_def ustr_def label_defs)

lemma float_abc: "py_float (ustr ''abc'') = Unparseable"
  by (simp add: ustr_def float_defs)

lemma clean_abc: "clean (ustr ''a,b c'') = ustr ''abc''"
  by (simp add: clean_def ustr_def)

lemma normalize_bad_sales:
  "normalize_columns repr_int example_bad_sales = Inl (ValueError_float (ustr ''abc''))"
  unfolding normalize_columns_def Let_def rename_bad_sales
  by (simp add: to_numeric_def count_col_def coerce_cell_def astype_str_def clean_def ustr_def
      float_defs label_defs)

lemma normalize_bad_prev:
  "normalize_columns repr_int example_bad_prev = Inl (ValueError_float (ustr ''abc''))"
  unfolding normalize_columns_def Let_def rename_bad_prev
  by (simp add: to_numeric_def count_col_def set_col_def coerce_cell_def astype_str_def clean_def
      str_int_def str_nat.simps ustr_def float_defs label_defs)

theorem unparseable_cell_fails_witness:
  "(col_sales, [S (ustr ''12''), S (ustr ''a,b c'')]) \<in> set (rename_columns example_bad_sales) \<and>
   col_sales \<in> numeric_cols \<and>
   S (ustr ''a,b c'') \<in> set [S (ustr ''12''), S (ustr ''a,b c'')] \<and>
   clean (astype_str repr_int (S (ustr ''a,b c''))) \<noteq> [] \<and>
   py_float (clean (astype_str repr_int (S (ustr ''a,b c'')))) = Unparseable \<and>
   run repr_int example_bad_sales = Inl (ValueError_float (ustr ''abc''))"
proof -
  have 1: "(col_sales, [S (ustr ''12''), S (ustr ''a,b c'')]) \<in> set (rename_columns example_bad_sales)"
    by (simp add: rename_bad_sales)
  have 2: "col_sales \<in> numeric_cols"
    by (simp add: numeric_cols_def)
  have 3: "S (ustr ''a,b c'') \<in> set [S (ustr ''12''), S (ustr ''a,b c'')]"
    by simp
  have c: "clean (astype_str repr_int (S (ustr ''a,b c''))) = ustr ''abc''"
    by (simp add: astype_str_def clean_abc)
  have 4: "clean (astype_str repr_int (S (ustr ''a,b c''))) \<noteq> []"
    unfolding c by (simp add: ustr_def)
  have 5: "py_float (clean (astype_str repr_int (S (ustr ''a,b c'')))) = Unparseable"
    unfolding c by (rule float_abc)
  from unparseable_cell_fails [OF 1 2 3 4 5] obtain e where
    "normalize_columns repr_int example_bad_sales = Inl e" "run repr_int example_bad_sales = Inl e"
    by blast
  then have "run repr_int example_bad_sales = Inl (ValueError_float (ustr ''abc''))"
    by (simp add: normalize_bad_sales)
  with 1 2 3 4 5 show ?thesis by (intro conjI)
qed

text \<open>
  Claim C3 as the specification states it asks for an error that names the offending
  column. The same text in the sales column of one table and in the prior-year column
  of another gives one and the same error, which quotes the text without its comma and
  space, and the run ends with it.
\<close>

theorem value_error_names_no_column:
  "normalize_columns repr_int example_bad_sales = Inl (ValueError_float (ustr ''abc'')) \<and>
   normalize_columns repr_int example_bad_prev = Inl (ValueError_float (ustr ''abc'')) \<and>
   run repr_int example_bad_sales = Inl (ValueError_float (ustr ''abc'')) \<and>
   run repr_int example_bad_prev = Inl (ValueError_float (ustr ''abc''))"
  by (simp add: normalize_bad_sales normalize_bad_prev run_normalize_error)

section \<open>Normalizing twice\<close>

lemma dropWhile_snoc_keep:
  assumes "\<not> p x"
  shows "\<exists>zs. dropWhile p (ys @ [x]) = zs @ [x]"
  using assms by (auto simp: dropWhile_append)

lemma strip_by_head:
  assumes "\<not> p x"
  shows "\<exists>zs. strip_by p (x # u) = x # zs \<and> dropWhile p (rev (x # zs)) = rev (x # zs)"
proof -
  from assms have d: "dropWhile p (x # u) = x # u" by simp
  from dropWhile_snoc_keep [of p x "rev u", OF assms] obtain zs where
    zs: "dropWhile p (rev u @ [x]) = zs @ [x]" by blast
  with assms have "strip_by p (x # u) = x # rev zs"
    by (simp add: strip_by_def)
  moreover have "dropWhile p (rev (x # rev zs)) = rev (x # rev zs)"
  proof -
    have "dropWhile p (dropWhile p (rev u @ [x])) = dropWhile p (rev u @ [x])"
      by (rule dropWhile_idem)
    with zs show ?thesis by simp
  qed
  ultimately show ?thesis by blast
qed

lemma strip_by_idem: "strip_by p (strip_by p s) = strip_by p s"
proof (cases "dropWhile p s")
  case Nil
  show ?thesis unfolding strip_by_def Nil by simp
next
  case (Cons x u)
  then have nx: "\<not> p x" by (metis hd_dropWhile list.distinct(1) list.sel(1))
  from Cons have s: "strip_by p s = strip_by p (x # u)"
    using nx by (simp add: strip_by_def)
  from strip_by_head [of p x u, OF nx] obtain zs where
    zs: "strip_by p (x # u) = x # zs" "dropWhile p (rev (x # zs)) = rev (x # zs)" by blast
  have "strip_by p (x # zs) = x # zs"
    using nx zs(2) by (simp add: strip_by_def)
  with s zs(1) show ?thesis by simp
qed

lemma strip_idem: "strip (strip s) = strip s"
  by (simp add: strip_def strip_by_idem)

lemma COLUMN_MAP_values:
  "map_of COLUMN_MAP k = Some v \<Longrightarrow> v \<in> {col_month, col_sales, col_prev, col_growth}"
  by (drule map_of_SomeD) (auto simp: COLUMN_MAP_def)

lemma new_label_canonical:
  "new_label col_month = col_month" "new_label col_sales = col_sales"
  "new_label col_prev = col_prev" "new_label col_growth = col_growth"
  by (simp_all add: new_label_def strip_def strip_by_def isspace_def dict_get_def COLUMN_MAP_def
      label_defs ustr_def)

lemma new_label_idem: "new_label (new_label c) = new_label c"
proof (cases "map_of COLUMN_MAP (strip c)")
  case None
  then have "new_label c = strip c" by (rule new_label_unknown)
  moreover from None have "new_label (strip c) = strip c"
    by (simp add: new_label_def dict_get_def strip_idem)
  ultimately show ?thesis by simp
next
  case (Some v)
  then have "new_label c = v" by (simp add: new_label_def dict_get_def)
  moreover from COLUMN_MAP_values [OF Some] have "new_label v = v"
    using new_label_canonical by auto
  ultimately show ?thesis by simp
qed

lemma normalize_labels:
  assumes "normalize_columns fstr df = Inr out"
  shows "map fst out = map new_label (map fst df)"
  using norm_rel_labels [OF normalize_rel(1) [OF assms]] by (simp add: rename_labels)

lemma rename_normalized:
  assumes "normalize_columns fstr df = Inr out"
  shows "rename_columns out = out"
proof -
  have "\<forall>a \<in> set out. new_label (fst a) = fst a"
  proof
    fix a assume "a \<in> set out"
    then have "fst a \<in> set (map fst out)" by simp
    then have "fst a \<in> set (map new_label (map fst df))"
      unfolding normalize_labels [OF assms] .
    then obtain c where "fst a = new_label c" by auto
    then show "new_label (fst a) = fst a"
      by (simp add: new_label_idem)
  qed
  then show ?thesis
    unfolding rename_columns_def by (intro map_idI) (auto simp: split_beta)
qed

lemma set_col_same:
  assumes "\<forall>cs0. (col, cs0) \<in> set df \<longrightarrow> cs0 = cs"
  shows "set_col df col cs = df"
  unfolding set_col_def using assms by (intro map_idI) (auto simp: split_beta)

lemma to_numeric_fix:
  assumes "count_col out col \<le> 1"
    and "\<forall>cs. (col, cs) \<in> set out \<longrightarrow> coerce_cells fstr cs = Inr cs"
  shows "to_numeric fstr col out = Inr out"
proof (cases "map_of out col")
  case None
  then show ?thesis by (simp add: to_numeric_def)
next
  case (Some cs)
  then have "(col, cs) \<in> set out" by (rule map_of_SomeD)
  with assms(2) have c: "coerce_cells fstr cs = Inr cs" by simp
  have "set_col out col cs = out"
    using unique_col [OF Some assms(1)] by (intro set_col_same) simp
  with Some assms(1) c show ?thesis
    by (simp add: to_numeric_def)
qed

lemma string_month_fix:
  assumes "count_col out col_month \<le> 1"
    and "\<forall>cs. (col_month, cs) \<in> set out \<longrightarrow> month_cells fstr cs = cs"
  shows "string_month fstr out = Inr out"
proof (cases "map_of out col_month")
  case None
  then show ?thesis by (simp add: string_month_def)
next
  case (Some cs)
  then have "(col_month, cs) \<in> set out" by (rule map_of_SomeD)
  with assms(2) have c: "month_cells fstr cs = cs" by simp
  have "set_col out col_month cs = out"
    using unique_col [OF Some assms(1)] by (intro set_col_same) simp
  with Some assms(1) c show ?thesis
    by (simp add: string_month_def month_cells_def [symmetric])
qed

lemma month_cells_idem: "month_cells fstr (month_cells fstr cs) = month_cells fstr cs"
  by (simp add: month_cells_def astype_str_def strip_idem)

lemma coerce_nan: "coerce_cell fstr (F NaN) = Inr NaN"
  by (simp add: coerce_cell_def astype_str_def float_str_def clean_def ustr_def float_defs)

lemma coerce_cells_fix:
  assumes "coerce_cells fstr cs0 = Inr cs"
    and "\<forall>r. F (Fin r) \<in> set cs \<longrightarrow> py_float (clean (fstr r)) = Parsed (Fin r)"
  shows "coerce_cells fstr cs = Inr cs"
proof (rule coerce_cells_Inr_I, subst list_all2_same, rule ballI)
  fix c assume c: "c \<in> set cs"
  from list_all2_right [OF coerce_cells_Inr_D [OF assms(1)] c] obtain x where x: "c = F x"
    by blast
  have "coerce_cell fstr (F x) = Inr x"
  proof (cases x)
    case NaN
    then show ?thesis by (simp add: coerce_nan)
  next
    case (Fin r)
    with c x assms(2) have p: "py_float (clean (fstr r)) = Parsed (Fin r)" by simp
    have "py_float [] = Unparseable"
      by (simp add: py_float_def strip_by_def)
    with p have "clean (fstr r) \<noteq> []" by auto
    with p Fin show ?thesis
      by (simp add: coerce_cell_def astype_str_def float_str_def)
  qed
  with x show "\<exists>x. coerce_cell fstr c = Inr x \<and> c = F x" by simp
qed

text \<open>
  Claim C7. Normalizing a table that normalization has produced gives the same table,
  labels and cells, provided \<open>repr\<close> of each number in its numeric columns reads back
  as that number (which \<open>repr\<close> of a float does).
\<close>
theorem normalize_idempotent:
  assumes "normalize_columns fstr df = Inr out"
    and "\<forall>h cs r. (h, cs) \<in> set out \<and> h \<in> numeric_cols \<and> F (Fin r) \<in> set cs \<longrightarrow>
           py_float (clean (fstr r)) = Parsed (Fin r)"
  shows "normalize_columns fstr out = Inr out"
proof -
  note rel = normalize_rel(1) [OF assms(1)]
  have labels: "map fst out = map fst (rename_columns df)"
    using rel by (rule norm_rel_labels)
  have count: "count_col out col \<le> 1" if "col \<in> insert col_month numeric_cols" for col
    using normalize_rel(2) [OF assms(1)] that count_col_labels [OF labels] by auto
  have num: "to_numeric fstr col out = Inr out" if col: "col \<in> numeric_cols" for col
  proof (rule to_numeric_fix)
    from col show "count_col out col \<le> 1" by (intro count) simp
    show "\<forall>cs. (col, cs) \<in> set out \<longrightarrow> coerce_cells fstr cs = Inr cs"
    proof (intro allI impI)
      fix cs assume cs: "(col, cs) \<in> set out"
      from list_all2_right [OF rel cs] obtain a where "norm_rel fstr a (col, cs)" by blast
      with col have "coerce_cells fstr (snd a) = Inr cs"
        by (simp add: norm_rel_def)
      moreover from assms(2) cs col
      have "\<forall>r. F (Fin r) \<in> set cs \<longrightarrow> py_float (clean (fstr r)) = Parsed (Fin r)"
        by blast
      ultimately show "coerce_cells fstr cs = Inr cs" by (rule coerce_cells_fix)
    qed
  qed
  have month: "string_month fstr out = Inr out"
  proof (rule string_month_fix)
    show "count_col out col_month \<le> 1" by (intro count) simp
    show "\<forall>cs. (col_month, cs) \<in> set out \<longrightarrow> month_cells fstr cs = cs"
    proof (intro allI impI)
      fix cs assume cs: "(col_month, cs) \<in> set out"
      from list_all2_right [OF rel cs] obtain a where a: "norm_rel fstr a (col_month, cs)" by blast
      then have "fst a = col_month" by (simp add: norm_rel_def)
      with a labels_distinct have "cs = month_cells fstr (snd a)"
        by (simp add: norm_rel_def numeric_cols_def)
      then show "month_cells fstr cs = cs" by (simp add: month_cells_idem)
    qed
  qed
  from num have "numeric_loop fstr [col_sales, col_prev, col_growth] out = Inr out"
    by (simp add: numeric_cols_def)
  with month show ?thesis
    by (simp add: normalize_columns_def rename_normalized [OF assms(1)])
qed

lemma repr_int_reads_back:
  "py_float (clean (repr_int 1200)) = Parsed (Fin 1200)"
  "py_float (clean (repr_int 300)) = Parsed (Fin 300)"
  "py_float (clean (repr_int 90)) = Parsed (Fin 90)"
  "py_float (clean (repr_int 180)) = Parsed (Fin 180)"
  "py_float (clean (repr_int 12)) = Parsed (Fin 12)"
  "py_float (clean (repr_int 5)) = Parsed (Fin 5)"
  "py_float (clean (repr_int 3)) = Parsed (Fin 3)"
  by (simp_all add: repr_int_def str_int_def str_nat.simps clean_def ustr_def float_defs)

lemma example_numbers:
  assumes "(h, cs) \<in> set example_normalized" "F (Fin r) \<in> set cs"
  shows "r \<in> {1200, 300, 90, 180, 12, 5, 3}"
proof -
  from assms(1) have "cs \<in> snd ` set example_normalized" by force
  then have "cs \<in> {[S (ustr ''2023-01''), S (ustr ''2023-03''), S (ustr ''2023-02'')],
      [F (Fin 1200), F (Fin 300), F (Fin 1200)], [F (Fin 90), F NaN, F (Fin 180)],
      [F (Fin 12), F (Fin 5), F (Fin 3)], [S (ustr ''a, b''), F NaN, F NaN]}"
    by (simp add: example_normalized_def)
  with assms(2) show ?thesis by auto
qed

theorem normalize_idempotent_witness:
  "normalize_columns repr_int example_upload = Inr example_normalized \<and>
   py_float (clean (repr_int 1200)) = Parsed (Fin 1200) \<and>
   normalize_columns repr_int example_normalized = Inr example_normalized"
proof -
  have rt: "\<forall>h cs r. (h, cs) \<in> set example_normalized \<and> h \<in> numeric_cols \<and> F (Fin r) \<in> set cs \<longrightarrow>
      py_float (clean (repr_int r)) = Parsed (Fin r)"
  proof (intro allI impI, elim conjE)
    fix h cs r
    assume "(h, cs) \<in> set example_normalized" "F (Fin r) \<in> set cs"
    then have "r \<in> {1200, 300, 90, 180, 12, 5, 3}"
      by (rule example_numbers)
    then consider "r = 1200" | "r = 300" | "r = 90" | "r = 180" | "r = 12" | "r = 5" | "r = 3"
      by blast
    then show "py_float (clean (repr_int r)) = Parsed (Fin r)"
      by cases (simp_all only: repr_int_reads_back)
  qed
  have "normalize_columns repr_int example_normalized = Inr example_normalized"
    using normalize_example rt by (rule normalize_idempotent)
  then show ?thesis
    using normalize_example repr_int_reads_back(1) by (intro conjI)
qed

section \<open>The three largest and the three smallest of a sorted column\<close>

lemma in_set_drop_nth: "x \<in> set (drop k xs) \<longleftrightarrow> (\<exists>q. k \<le> q \<and> q < length xs \<and> xs ! q = x)"
proof (cases "k \<le> length xs")
  case True
  show ?thesis
  proof
    assume "x \<in> set (drop k xs)"
    then obtain i where "i < length xs - k" "drop k xs ! i = x"
      by (auto simp: in_set_conv_nth)
    with True have "k \<le> k + i \<and> k + i < length xs \<and> xs ! (k + i) = x" by simp
    then show "\<exists>q. k \<le> q \<and> q < length xs \<and> xs ! q = x" by blast
  next
    assume "\<exists>q. k \<le> q \<and> q < length xs \<and> xs ! q = x"
    then obtain q where q: "k \<le> q" "q < length xs" "xs ! q = x" by blast
    then have "q - k < length (drop k xs)" "drop k xs ! (q - k) = x" by simp_all
    then show "x \<in> set (drop k xs)" by (metis nth_mem)
  qed
next
  case False
  then show ?thesis by auto
qed

lemma in_set_take_nth: "x \<in> set (take k xs) \<longleftrightarrow> (\<exists>q. q < k \<and> q < length xs \<and> xs ! q = x)"
  by (auto simp: in_set_conv_nth)

lemma count_above_sorted:
  fixes xs :: "'a::linorder list"
  assumes "sorted_wrt (<) xs" "p < length xs"
  shows "length (filter (\<lambda>d. xs ! p < d) xs) = length xs - Suc p"
proof -
  have a: "\<forall>y \<in> set (take p xs). \<not> xs ! p < y"
  proof
    fix y assume "y \<in> set (take p xs)"
    then obtain q where "q < p" "xs ! q = y" by (auto simp: in_set_take_nth)
    with assms have "y < xs ! p" using sorted_wrt_nth_less [of "(<)" xs q p] by simp
    then show "\<not> xs ! p < y" by simp
  qed
  have b: "\<forall>y \<in> set (drop (Suc p) xs). xs ! p < y"
  proof
    fix y assume "y \<in> set (drop (Suc p) xs)"
    then obtain q where "Suc p \<le> q" "q < length xs" "xs ! q = y" by (auto simp: in_set_drop_nth)
    with assms show "xs ! p < y" using sorted_wrt_nth_less [of "(<)" xs p q] by simp
  qed
  have "filter (\<lambda>d. xs ! p < d) xs =
      filter (\<lambda>d. xs ! p < d) (take p xs @ xs ! p # drop (Suc p) xs)"
    using id_take_nth_drop [OF assms(2)] by (rule arg_cong)
  also have "\<dots> = drop (Suc p) xs"
    using a b by (simp add: filter_empty_conv filter_id_conv)
  finally show ?thesis by simp
qed

lemma count_below_sorted:
  fixes xs :: "'a::linorder list"
  assumes "sorted_wrt (<) xs" "p < length xs"
  shows "length (filter (\<lambda>d. d < xs ! p) xs) = p"
proof -
  have a: "\<forall>y \<in> set (take p xs). y < xs ! p"
  proof
    fix y assume "y \<in> set (take p xs)"
    then obtain q where "q < p" "xs ! q = y" by (auto simp: in_set_take_nth)
    with assms show "y < xs ! p" using sorted_wrt_nth_less [of "(<)" xs q p] by simp
  qed
  have b: "\<forall>y \<in> set (drop (Suc p) xs). \<not> y < xs ! p"
  proof
    fix y assume "y \<in> set (drop (Suc p) xs)"
    then obtain q where "Suc p \<le> q" "q < length xs" "xs ! q = y" by (auto simp: in_set_drop_nth)
    with assms have "xs ! p < y" using sorted_wrt_nth_less [of "(<)" xs p q] by simp
    then show "\<not> y < xs ! p" by simp
  qed
  have "filter (\<lambda>d. d < xs ! p) xs =
      filter (\<lambda>d. d < xs ! p) (take p xs @ xs ! p # drop (Suc p) xs)"
    using id_take_nth_drop [OF assms(2)] by (rule arg_cong)
  also have "\<dots> = take p xs"
    using a b by (simp add: filter_empty_conv filter_id_conv)
  finally show ?thesis using assms(2) by simp
qed

lemma length_filter_mset:
  "mset xs = mset ys \<Longrightarrow> length (filter P xs) = length (filter P ys)"
  by (metis mset_filter size_mset)

lemma mset_map_nth_perm:
  assumes "mset perm = mset [0..<length xs]"
  shows "mset (map ((!) xs) perm) = mset xs"
proof -
  have "mset (map ((!) xs) perm) = image_mset ((!) xs) (mset perm)" by simp
  also have "\<dots> = image_mset ((!) xs) (mset [0..<length xs])" by (simp only: assms)
  also have "\<dots> = mset (map ((!) xs) [0..<length xs])" by (simp only: mset_map)
  also have "\<dots> = mset xs" by (simp only: map_nth)
  finally show ?thesis .
qed

lemma distinct_map_nth_perm:
  assumes "distinct xs" "distinct perm" "\<forall>i \<in> set perm. i < length xs"
  shows "distinct (map ((!) xs) perm)"
  using assms by (auto simp: distinct_map inj_on_def nth_eq_iff_index_eq)

text \<open>
  The rows \<open>perm\<close> in ascending order of distinct values \<open>ds\<close>, with distinct labels
  \<open>months\<close>: the label of row \<open>i\<close> is among those after the first \<open>k\<close> exactly when
  fewer than \<open>n - k\<close> values are above the value of row \<open>i\<close>, and among the first
  \<open>k\<close> exactly when fewer than \<open>k\<close> values are below it.
\<close>

lemma rank_of_row:
  fixes ds :: "'a::linorder list"
  assumes len: "length ds = n" "length months = n"
    and dist: "distinct ds" "distinct months"
    and perm: "mset perm = mset [0..<n]" "sorted (map ((!) ds) perm)"
    and i: "i < n" and k: "k \<le> n"
  shows "months ! i \<in> set (drop k (map ((!) months) perm)) \<longleftrightarrow>
           length (filter (\<lambda>d. ds ! i < d) ds) < n - k"
    and "months ! i \<in> set (take k (map ((!) months) perm)) \<longleftrightarrow>
           length (filter (\<lambda>d. d < ds ! i) ds) < k"
proof -
  from perm(1) have set_perm: "set perm = {..<n}"
    by (metis atLeast_upt mset_eq_setD set_upt)
  from perm(1) have dperm: "distinct perm"
    by (metis distinct_upt mset_eq_imp_distinct_iff)
  from perm(1) have lperm: "length perm = n"
    by (metis length_upt mset_eq_length diff_zero)
  from i set_perm have "i \<in> set perm" by simp
  then obtain p where "p < length perm" "perm ! p = i"
    unfolding in_set_conv_nth by blast
  with lperm have p: "p < n" "perm ! p = i" by simp_all
  let ?ds' = "map ((!) ds) perm"
  have "distinct ?ds'"
    using dist(1) dperm set_perm len(1) by (intro distinct_map_nth_perm) auto
  with perm(2) have sorted: "sorted_wrt (<) ?ds'"
    by (simp add: strict_sorted_iff)
  have mset: "mset ?ds' = mset ds"
    using perm(1) len(1) by (intro mset_map_nth_perm) simp
  have at_p: "?ds' ! p = ds ! i"
    using p lperm by simp
  have above: "length (filter (\<lambda>d. ds ! i < d) ds) = n - Suc p"
  proof -
    have "length (filter (\<lambda>d. ds ! i < d) ds) = length (filter (\<lambda>d. ds ! i < d) ?ds')"
      using mset by (intro length_filter_mset) simp
    also have "\<dots> = length (filter (\<lambda>d. ?ds' ! p < d) ?ds')"
      by (simp only: at_p)
    also have "\<dots> = length ?ds' - Suc p"
      using sorted p(1) lperm by (intro count_above_sorted) simp_all
    finally show ?thesis using lperm by simp
  qed
  have below: "length (filter (\<lambda>d. d < ds ! i) ds) = p"
  proof -
    have "length (filter (\<lambda>d. d < ds ! i) ds) = length (filter (\<lambda>d. d < ds ! i) ?ds')"
      using mset by (intro length_filter_mset) simp
    also have "\<dots> = length (filter (\<lambda>d. d < ?ds' ! p) ?ds')"
      by (simp only: at_p)
    also have "\<dots> = p"
      using sorted p(1) lperm by (intro count_below_sorted) simp_all
    finally show ?thesis .
  qed
  have pos: "(\<exists>q. P q \<and> q < n \<and> months ! (perm ! q) = months ! i) \<longleftrightarrow> P p" for P
  proof
    assume "\<exists>q. P q \<and> q < n \<and> months ! (perm ! q) = months ! i"
    then obtain q where q: "P q" "q < n" "months ! (perm ! q) = months ! i" by blast
    from q(2) lperm set_perm have "perm ! q < n" by (metis lessThan_iff nth_mem)
    with q(3) i dist(2) len(2) have "perm ! q = i"
      by (metis nth_eq_iff_index_eq)
    with p q(2) dperm lperm have "q = p"
      by (metis nth_eq_iff_index_eq)
    with q(1) show "P p" by simp
  next
    assume "P p"
    with p show "\<exists>q. P q \<and> q < n \<and> months ! (perm ! q) = months ! i" by blast
  qed
  have "months ! i \<in> set (drop k (map ((!) months) perm)) \<longleftrightarrow>
      (\<exists>q. k \<le> q \<and> q < n \<and> months ! (perm ! q) = months ! i)"
    using lperm by (auto simp: in_set_drop_nth)
  also have "\<dots> \<longleftrightarrow> k \<le> p" by (rule pos)
  also have "\<dots> \<longleftrightarrow> length (filter (\<lambda>d. ds ! i < d) ds) < n - k"
    using above p(1) k by auto
  finally show "months ! i \<in> set (drop k (map ((!) months) perm)) \<longleftrightarrow>
           length (filter (\<lambda>d. ds ! i < d) ds) < n - k" .
  have "months ! i \<in> set (take k (map ((!) months) perm)) \<longleftrightarrow>
      (\<exists>q. q < k \<and> q < n \<and> months ! (perm ! q) = months ! i)"
    using lperm by (auto simp: in_set_take_nth)
  also have "\<dots> \<longleftrightarrow> p < k" by (rule pos)
  also have "\<dots> \<longleftrightarrow> length (filter (\<lambda>d. d < ds ! i) ds) < k"
    using below by simp
  finally show "months ! i \<in> set (take k (map ((!) months) perm)) \<longleftrightarrow>
           length (filter (\<lambda>d. d < ds ! i) ds) < k" .
qed

section \<open>The figure of the differences\<close>

lemma map_of_set_col_same:
  "col \<in> fst ` set df \<Longrightarrow> map_of (set_col df col xs) col = Some xs"
  by (induction df) (auto simp: set_col_def)

lemma map_of_set_col_other:
  "c \<noteq> col \<Longrightarrow> map_of (set_col df col xs) c = map_of df c"
  by (induction df) (auto simp: set_col_def)

lemma labels_set_col: "map fst (set_col df col xs) = map fst df"
  by (induction df) (auto simp: set_col_def)

lemma count_col_set_col: "count_col (set_col df col xs) c = count_col df c"
  by (rule count_col_labels) (rule labels_set_col)

lemma map_of_assign_same: "map_of (assign df col xs) col = Some xs"
proof (cases "col \<in> set (columns df)")
  case True
  then show ?thesis by (simp add: assign_def columns_def map_of_set_col_same)
next
  case False
  then have "map_of df col = None" by (simp add: columns_def map_of_eq_None_iff)
  with False show ?thesis by (simp add: assign_def map_add_def)
qed

lemma getitem_assign_other:
  assumes "c \<noteq> col"
  shows "getitem (assign df col xs) c = getitem df c"
proof (cases "col \<in> set (columns df)")
  case True
  with assms show ?thesis
    by (simp add: assign_def getitem_def map_of_set_col_other count_col_set_col split: option.splits)
next
  case False
  from assms have "map_of (df @ [(col, xs)]) c = map_of df c"
    by (simp add: map_add_def split: option.splits)
  moreover from assms have "count_col (df @ [(col, xs)]) c = count_col df c"
    by (simp add: count_col_def)
  ultimately have "getitem (df @ [(col, xs)]) c = getitem df c"
    by (simp only: getitem_def)
  with False show ?thesis by (simp add: assign_def)
qed

lemma str_col_assign_other: "c \<noteq> col \<Longrightarrow> str_col (assign df col xs) c = str_col df c"
  by (simp add: str_col_def getitem_assign_other)

lemma float_col_assign_same:
  assumes "float_col (assign df col (map F xs)) col = Inr keys"
  shows "keys = xs"
proof -
  from assms have "getitem (assign df col (map F xs)) col = Inr (map F keys)"
    by (simp add: float_col_iff)
  then have "map_of (assign df col (map F xs)) col = Some (map F keys)"
    by (auto simp: getitem_def split: option.splits if_splits)
  then show ?thesis by (simp add: map_of_assign_same map_F_eq)
qed

lemma map2_fsub_Fin: "map2 fsub (map Fin ss) (map Fin ps) = map Fin (map2 (-) ss ps)"
  by (induction ss ps rule: list_induct2') (simp_all add: fsub_def)

lemma sorted_nan_last_Fin:
  "sorted (map nan_last (map Fin xs)) \<longleftrightarrow> sorted xs"
  by (induction xs) (auto simp: nan_last_def)

lemma hbar_diff_months:
  assumes fig: "hbar_diff df = Inr fig"
    and months: "str_col df col_month = Inr months"
    and sales: "float_col df col_sales = Inr (map Fin ss)"
    and prev: "float_col df col_prev = Inr (map Fin ps)"
    and len: "length months = length (map2 (-) ss ps)"
  shows "bar_y fig = map ((!) months) (argsort (map nan_last (map Fin (map2 (-) ss ps))))"
proof -
  let ?ds = "map2 (-) ss ps"
  let ?A = "assign df col_diff (map F (map Fin ?ds))"
  let ?perm = "argsort (map nan_last (map Fin ?ds))"
  from fig obtain tmp ms where
    tmp: "hbar_tmp df = Inr tmp" and ms: "str_col tmp col_month = Inr ms" and y: "bar_y fig = ms"
    by (auto simp: hbar_diff_def bind_err_eq_Inr)
  from tmp have "sort_values_float col_diff
      (assign df col_diff (map F (map2 fsub (map Fin ss) (map Fin ps)))) = Inr tmp"
    unfolding hbar_tmp_def sales prev bind_err_Inr .
  then have "sort_values_float col_diff ?A = Inr tmp"
    unfolding map2_fsub_Fin .
  then obtain keys where
    keys: "float_col ?A col_diff = Inr keys" and t: "tmp = take_rows (argsort (map nan_last keys)) ?A"
    by (auto simp: sort_values_float_def bind_err_eq_Inr)
  from keys have "keys = map Fin ?ds" by (rule float_col_assign_same)
  with t have t': "tmp = take_rows ?perm ?A" by simp
  have "col_month \<noteq> col_diff" by (simp add: label_defs)
  with months have "str_col ?A col_month = Inr months"
    by (simp add: str_col_assign_other)
  moreover have "\<forall>i \<in> set ?perm. i < length months"
    using len by (simp add: set_argsort)
  ultimately have "str_col (take_rows ?perm ?A) col_month = Inr (map ((!) months) ?perm)"
    by (rule str_col_take_rows)
  with ms t' y show ?thesis by simp
qed

text \<open>
  Claim C4, as amended. For a table of six rows with six different month labels, no
  missing sales or prior-year sales and six different differences: the label of a row
  is in \<open>top3\<close> exactly when fewer than three rows have a larger difference, and in
  \<open>bottom3\<close> exactly when fewer than three rows have a smaller one; each set has
  three labels and the two sets have none in common. (The figure gives one colour to
  both sets.)
\<close>
theorem highlight_six_rows:
  assumes "hbar_diff df = Inr fig"
    and "str_col df col_month = Inr months"
    and "float_col df col_sales = Inr (map Fin ss)"
    and "float_col df col_prev = Inr (map Fin ps)"
    and "length months = 6" "length ss = 6" "length ps = 6"
    and "distinct months" and "distinct (map2 (-) ss ps)"
  shows "(\<forall>i < 6. (months ! i \<in> top3 (bar_y fig)) =
            (length (filter (\<lambda>d. map2 (-) ss ps ! i < d) (map2 (-) ss ps)) < 3)) \<and>
         (\<forall>i < 6. (months ! i \<in> bottom3 (bar_y fig)) =
            (length (filter (\<lambda>d. d < map2 (-) ss ps ! i) (map2 (-) ss ps)) < 3)) \<and>
         card (top3 (bar_y fig)) = 3 \<and> card (bottom3 (bar_y fig)) = 3 \<and>
         top3 (bar_y fig) \<inter> bottom3 (bar_y fig) = {} \<and>
         mset (bar_y fig) = mset months"
proof -
  define ds where "ds = map2 (-) ss ps"
  define perm where "perm = argsort (map nan_last (map Fin ds))"
  define ms where "ms = map ((!) months) perm"
  from assms(6,7) have lds: "length ds = 6" by (simp add: ds_def)
  have "bar_y fig = map ((!) months) (argsort (map nan_last (map Fin (map2 (-) ss ps))))"
    using assms(1-4) by (rule hbar_diff_months) (simp add: assms(5-7))
  then have y: "bar_y fig = ms"
    by (simp only: ms_def perm_def ds_def)
  have lperm: "length perm = 6"
    by (simp add: perm_def length_argsort lds)
  have set_perm: "set perm = {..<6}"
    by (simp add: perm_def set_argsort lds)
  have dperm: "distinct perm"
    unfolding perm_def by (rule distinct_argsort)
  have perm: "mset perm = mset [0..<6]"
    using mset_argsort [of "map nan_last (map Fin ds)"] lds by (simp add: perm_def)
  have "sorted (map ((!) (map nan_last (map Fin ds))) perm)"
    unfolding perm_def by (rule sorted_keys_argsort)
  moreover have "map ((!) (map nan_last (map Fin ds))) perm = map nan_last (map Fin (map ((!) ds) perm))"
    using lds set_perm by simp
  ultimately have "sorted (map nan_last (map Fin (map ((!) ds) perm)))"
    by (simp only:)
  then have sorted: "sorted (map ((!) ds) perm)"
    by (simp only: sorted_nan_last_Fin)
  from assms(9) have dds: "distinct ds" by (simp only: ds_def)
  note rank = rank_of_row [of ds 6 months perm _ 3, OF lds assms(5) dds assms(8) perm sorted,
      folded ms_def]
  have lms: "length ms = 6" by (simp add: ms_def lperm)
  have top: "top3 ms = set (drop 3 ms)"
    using lms by (simp add: top3_def tail3_def)
  have bot: "bottom3 ms = set (take 3 ms)"
    by (simp add: bottom3_def head3_def)
  have dms: "distinct ms"
    unfolding ms_def using assms(8) dperm
    by (rule distinct_map_nth_perm) (simp add: set_perm assms(5))
  have "card (set (drop 3 ms)) = length (drop 3 ms)"
    using dms by (intro distinct_card) simp
  with lms have c1: "card (top3 ms) = 3" by (simp add: top)
  have "card (set (take 3 ms)) = length (take 3 ms)"
    using dms by (intro distinct_card) simp
  with lms have c2: "card (bottom3 ms) = 3" by (simp add: bot)
  have disj: "top3 ms \<inter> bottom3 ms = {}"
    using set_take_disj_set_drop_if_distinct [OF dms, of 3 3] by (auto simp: top bot)
  have m: "mset ms = mset months"
    unfolding ms_def using perm assms(5) by (intro mset_map_nth_perm) simp
  have r1: "\<forall>i < 6. (months ! i \<in> top3 ms) = (length (filter (\<lambda>d. ds ! i < d) ds) < 3)"
    using rank(1) by (simp add: top)
  have r2: "\<forall>i < 6. (months ! i \<in> bottom3 ms) = (length (filter (\<lambda>d. d < ds ! i) ds) < 3)"
    using rank(2) by (simp add: bot)
  from r1 r2 c1 c2 disj m show ?thesis
    unfolding y ds_def by (intro conjI)
qed

lemma six_columns:
  "str_col example_six col_month =
     Inr [ustr ''2023-01'', ustr ''2023-02'', ustr ''2023-03'',
          ustr ''2023-04'', ustr ''2023-05'', ustr ''2023-06'']"
  "float_col example_six col_sales = Inr (map Fin [100, 250, 300, 420, 510, 600])"
  "float_col example_six col_prev = Inr (map Fin [90, 180, 320, 400, 515, 500])"
  by (simp_all add: str_col_def float_col_def getitem_def count_col_def example_six_def
      label_defs ustr_def)

lemma tmp_six:
  "hbar_tmp example_six =
     Inr [(col_month, [S (ustr ''2023-03''), S (ustr ''2023-05''), S (ustr ''2023-01''),
                       S (ustr ''2023-04''), S (ustr ''2023-02''), S (ustr ''2023-06'')]),
          (col_sales, [F (Fin 300), F (Fin 510), F (Fin 100), F (Fin 420), F (Fin 250), F (Fin 600)]),
          (col_prev, [F (Fin 320), F (Fin 515), F (Fin 90), F (Fin 400), F (Fin 180), F (Fin 500)]),
          (col_diff, [F (Fin (- 20)), F (Fin (- 5)), F (Fin 10), F (Fin 20), F (Fin 70), F (Fin 100)])]"
  unfolding hbar_tmp_def six_columns bind_err_Inr
  by (simp add: sort_values_float_def float_col_def getitem_def count_col_def assign_def columns_def
      example_six_def argsort_def take_rows_def nan_last_def fsub_def label_defs upt_rec)

lemma hbar_six: "hbar_diff example_six = Inr example_six_fig"
  unfolding hbar_diff_def tmp_six
  by (simp add: str_col_def float_col_def getitem_def count_col_def example_six_fig_def
      bar_colour_def top3_def bottom3_def tail3_def head3_def label_defs ustr_def)

lemma repeated_columns:
  "float_col example_repeated col_sales = Inr (map Fin [100, 600, 250, 300, 420, 510])"
  "float_col example_repeated col_prev = Inr (map Fin [90, 500, 180, 320, 400, 515])"
  by (simp_all add: float_col_def getitem_def count_col_def example_repeated_def label_defs)

lemma tmp_repeated:
  "hbar_tmp example_repeated =
     Inr [(col_month, [S (ustr ''2023-03''), S (ustr ''2023-05''), S (ustr ''2023-01''),
                       S (ustr ''2023-04''), S (ustr ''2023-02''), S (ustr ''2023-01'')]),
          (col_sales, [F (Fin 300), F (Fin 510), F (Fin 100), F (Fin 420), F (Fin 250), F (Fin 600)]),
          (col_prev, [F (Fin 320), F (Fin 515), F (Fin 90), F (Fin 400), F (Fin 180), F (Fin 500)]),
          (col_diff, [F (Fin (- 20)), F (Fin (- 5)), F (Fin 10), F (Fin 20), F (Fin 70), F (Fin 100)])]"
  unfolding hbar_tmp_def repeated_columns bind_err_Inr
  by (simp add: sort_values_float_def float_col_def getitem_def count_col_def assign_def columns_def
      example_repeated_def argsort_def take_rows_def nan_last_def fsub_def label_defs upt_rec)

lemma hbar_repeated: "hbar_diff example_repeated = Inr example_repeated_fig"
  unfolding hbar_diff_def tmp_repeated
  by (simp add: str_col_def float_col_def getitem_def count_col_def example_repeated_fig_def
      bar_colour_def top3_def bottom3_def tail3_def head3_def label_defs ustr_def)

theorem highlight_six_rows_witness:
  "hbar_diff example_six = Inr example_six_fig \<and>
   str_col example_six col_month =
     Inr [ustr ''2023-01'', ustr ''2023-02'', ustr ''2023-03'',
          ustr ''2023-04'', ustr ''2023-05'', ustr ''2023-06''] \<and>
   float_col example_six col_sales = Inr (map Fin [100, 250, 300, 420, 510, 600]) \<and>
   float_col example_six col_prev = Inr (map Fin [90, 180, 320, 400, 515, 500]) \<and>
   distinct (map2 (-) [100, 250, 300, 420, 510, 600] [90, 180, 320, 400, 515, 500 :: real]) \<and>
   ustr ''2023-06'' \<in> top3 (bar_y example_six_fig) \<and>
   ustr ''2023-03'' \<in> bottom3 (bar_y example_six_fig) \<and>
   card (top3 (bar_y example_six_fig)) = 3 \<and>
   card (bottom3 (bar_y example_six_fig)) = 3 \<and>
   top3 (bar_y example_six_fig) \<inter> bottom3 (bar_y example_six_fig) = {}"
proof -
  let ?months = "[ustr ''2023-01'', ustr ''2023-02'', ustr ''2023-03'',
          ustr ''2023-04'', ustr ''2023-05'', ustr ''2023-06'']"
  let ?ss = "[100, 250, 300, 420, 510, 600 :: real]"
  let ?ps = "[90, 180, 320, 400, 515, 500 :: real]"
  have l: "length ?months = 6" "length ?ss = 6" "length ?ps = 6" by simp_all
  have dm: "distinct ?months" by (simp add: ustr_def)
  have dd: "distinct (map2 (-) ?ss ?ps)" by simp
  note t = highlight_six_rows [OF hbar_six six_columns l dm dd]
  from t have "(?months ! 5 \<in> top3 (bar_y example_six_fig)) =
      (length (filter (\<lambda>d. map2 (-) ?ss ?ps ! 5 < d) (map2 (-) ?ss ?ps)) < 3)"
    by (elim conjE allE [of _ 5]) simp
  then have top: "ustr ''2023-06'' \<in> top3 (bar_y example_six_fig)" by simp
  from t have "(?months ! 2 \<in> bottom3 (bar_y example_six_fig)) =
      (length (filter (\<lambda>d. d < map2 (-) ?ss ?ps ! 2) (map2 (-) ?ss ?ps)) < 3)"
    by (elim conjE allE [of _ 2]) simp
  then have bot: "ustr ''2023-03'' \<in> bottom3 (bar_y example_six_fig)" by simp
  from t have c: "card (top3 (bar_y example_six_fig)) = 3"
    "card (bottom3 (bar_y example_six_fig)) = 3"
    "top3 (bar_y example_six_fig) \<inter> bottom3 (bar_y example_six_fig) = {}"
    by blast+
  show ?thesis
    by (intro conjI) (rule hbar_six six_columns dd top bot c)+
qed

text \<open>
  Claim C4 as the specification states it does not ask for different month labels. The
  sets are sets of labels: where the row with the largest difference and a row that is
  not among the three largest have the same label, that label is in both sets, and
  both rows count as highlighted for the largest differences.
\<close>

theorem highlight_sets_overlap:
  "hbar_diff example_repeated = Inr example_repeated_fig \<and>
   float_col example_repeated col_sales = Inr (map Fin [100, 600, 250, 300, 420, 510]) \<and>
   float_col example_repeated col_prev = Inr (map Fin [90, 500, 180, 320, 400, 515]) \<and>
   distinct (map2 (-) [100, 600, 250, 300, 420, 510] [90, 500, 180, 320, 400, 515 :: real]) \<and>
   ustr ''2023-01'' \<in> top3 (bar_y example_repeated_fig) \<and>
   ustr ''2023-01'' \<in> bottom3 (bar_y example_repeated_fig) \<and>
   top3 (bar_y example_repeated_fig) \<inter> bottom3 (bar_y example_repeated_fig) \<noteq> {}"
proof -
  have t: "ustr ''2023-01'' \<in> top3 (bar_y example_repeated_fig)"
    and b: "ustr ''2023-01'' \<in> bottom3 (bar_y example_repeated_fig)"
    by (simp_all add: example_repeated_fig_def top3_def bottom3_def tail3_def head3_def)
  then have n: "top3 (bar_y example_repeated_fig) \<inter> bottom3 (bar_y example_repeated_fig) \<noteq> {}"
    by blast
  have d: "distinct (map2 (-) [100, 600, 250, 300, 420, 510] [90, 500, 180, 320, 400, 515 :: real])"
    by simp
  show ?thesis
    by (intro conjI) (rule hbar_repeated repeated_columns d t b n)+
qed

end
